theory Spec2Isabelle
  imports Main
begin

section \<open>The syntax tree and the host's services\<close>

text \<open>
  The two rules of the repository (no-unused-declaration and no-unsafe-callback-scope) walk
  a TypeScript syntax tree.  A tree node is an object with a kind, a text span, modifiers
  and named properties that hold its child nodes; \<open>nid\<close> stands for the identity of the
  object, so that equality of two \<open>node\<close> values is the \<open>===\<close> of the source.
  \<open>props\<close> lists the child-valued properties in the order in which the compiler's
  \<open>forEachChild\<close> visits them; an array-valued property (such as \<open>elements\<close>) has one
  entry per element.  The modifiers of a node are kept as the list of their kinds (they
  are keyword tokens, which no visit method of the rules looks at).  The field \<open>end\<close> of
  the source is written \<open>end'\<close>.
\<close>

datatype SyntaxKind =
    Identifier | ThisKeyword | PropertyAccessExpression | QualifiedName
  | CallExpression | NewExpression | TaggedTemplateExpression | TypeReference
  | ImportSpecifier | NamespaceImport | NamedImports | ImportClause
  | SourceFile | ClassDeclaration | EnumDeclaration | FunctionDeclaration
  | VariableStatement | VariableDeclarationList | VariableDeclaration
  | Parameter | PropertyDeclaration | PropertyAssignment | MethodDeclaration | MethodSignature
  | ExpressionStatement | BinaryExpression | ArrowFunction | Block | ReturnStatement
  | ParenthesizedExpression | ElementAccessExpression | NumericLiteral
  | ExportKeyword | ReadonlyKeyword | ConstKeyword
  | ForStatement | PostfixUnaryExpression | FunctionExpression

datatype node =
  Node (nid: nat) (kind: SyntaxKind) (pos: int) (end': int) (getText: string)
       (modifiers: "SyntaxKind list") (props: "(string \<times> node) list")

definition property :: "string \<Rightarrow> node \<Rightarrow> node option" where
  "property k n = map_of (props n) k"

definition expression :: "node \<Rightarrow> node option" where
  "expression n = property ''expression'' n"

definition name :: "node \<Rightarrow> node option" where
  "name n = property ''name'' n"

definition tag :: "node \<Rightarrow> node option" where
  "tag n = property ''tag'' n"

definition propertyName :: "node \<Rightarrow> node option" where
  "propertyName n = property ''propertyName'' n"

definition declarationList :: "node \<Rightarrow> node option" where
  "declarationList n = property ''declarationList'' n"

definition elements :: "node \<Rightarrow> node list" where
  "elements n = map snd (filter (\<lambda>p. fst p = ''elements'') (props n))"

text \<open>\<open>tsutils.hasModifier(node.modifiers, kind)\<close>; absent modifiers are the empty list.\<close>

definition hasModifier :: "SyntaxKind list \<Rightarrow> SyntaxKind \<Rightarrow> bool" where
  "hasModifier ms k = (k \<in> set ms)"

text \<open>
  A symbol of the type checker: \<open>getDeclarations()\<close> returns an array or \<open>undefined\<close>.
  \<open>TypeFlags\<close> are the flags of the type the checker gives a node.
\<close>

datatype Symbol = Symbol (getDeclarations: "node list option")

datatype TypeFlags = EnumLiteral | OtherTypeFlag nat

definition isTypeFlagSet :: "TypeFlags list \<Rightarrow> TypeFlags \<Rightarrow> bool" where
  "isTypeFlagSet flags flag = (flag \<in> set flags)"

text \<open>
  What the rules consume and the source files do not contain: the parent pointer of a
  node, the type checker of the program, two functions of the library \<open>tsutils\<close>, and the
  helpers the capture rule imports from \<open>../support/util\<close>.  They are parameters of the
  model; \<open>forEachDeclaredVariable\<close> gives the declarations the library passes to its
  callback, in order.  \<open>getSymbolAtLocation\<close> and \<open>findDeclaration\<close> may answer
  \<open>undefined\<close> (\<open>None\<close>).  \<open>node.parent\<close> has the type \<open>Node\<close>; the rules read it
  for identifiers, for \<open>this\<close> and for property accesses only, which are never the root
  of a tree.
\<close>

record host =
  parent :: "node \<Rightarrow> node"
  getSymbolAtLocation :: "node \<Rightarrow> Symbol option"
  getTypeAtLocation :: "node \<Rightarrow> TypeFlags list"
  isReassignmentTarget :: "node \<Rightarrow> bool"
  forEachDeclaredVariable :: "node \<Rightarrow> node list"
  findDeclaration :: "node \<Rightarrow> node option"
  isConstDeclaration :: "node \<Rightarrow> bool"
  isInstanceofCtor :: "node \<Rightarrow> bool"
  isThis :: "node \<Rightarrow> bool"
  isWithinCallExpressionExpression :: "node \<Rightarrow> bool"
  isWithinParameterDeclaration :: "node \<Rightarrow> bool"

text \<open>
  Reading a property of \<open>undefined\<close> throws a \<open>TypeError\<close>, which leaves the pass.
\<close>

datatype error = TypeError

text \<open>
  The walker of the lint framework collects the failures; \<open>addFailureAtNode\<close> reads the
  start of the node it is given, so it throws on \<open>undefined\<close>.  A failure is recorded as
  the node it is reported at (both rules report one fixed message).
\<close>

record RuleWalker =
  failures :: "node list"

definition addFailureAtNode ::
  "node option \<Rightarrow> 'a RuleWalker_scheme \<Rightarrow> error + 'a RuleWalker_scheme" where
  "addFailureAtNode n w =
     (case n of
        None \<Rightarrow> Inl TypeError
      | Some n' \<Rightarrow> Inr (w\<lparr>failures := failures w @ [n']\<rparr>))"

section \<open>The rule no-unused-declaration\<close>

text \<open>
  A JavaScript \<open>Map\<close> keeps its entries in insertion order; \<open>set\<close> on a key that is
  present replaces the value in place.  A key is a node or \<open>undefined\<close>.
\<close>

type_synonym identifiers = "(node option \<times> bool) list"

definition Map_has :: "identifiers \<Rightarrow> node option \<Rightarrow> bool" where
  "Map_has m k = (map_of m k \<noteq> None)"

fun Map_set :: "identifiers \<Rightarrow> node option \<Rightarrow> bool \<Rightarrow> identifiers" where
  "Map_set [] k v = [(k, v)]"
| "Map_set (p # ps) k v = (if fst p = k then (k, v) # ps else p # Map_set ps k v)"

record Walker = RuleWalker +
  identifiers :: identifiers

definition getIdentifier :: "node \<Rightarrow> node option" where
  "getIdentifier n = property ''name'' n"

text \<open>
  \<open>onSourceFileEnd\<close>: one failure for every entry that is still unused, in the order of
  the map.
\<close>

fun reportUnused :: "identifiers \<Rightarrow> Walker \<Rightarrow> error + Walker" where
  "reportUnused [] w = Inr w"
| "reportUnused ((identifier, used) # rest) w =
     (if \<not> used then
        (case addFailureAtNode identifier w of
           Inl e \<Rightarrow> Inl e
         | Inr w' \<Rightarrow> reportUnused rest w')
      else reportUnused rest w)"

definition onSourceFileEnd :: "Walker \<Rightarrow> error + Walker" where
  "onSourceFileEnd w = reportUnused (identifiers w) w"

text \<open>
  The visit methods the walker overrides.  Each of them ends in its super call, whose
  default walks the children; that call is made by \<open>visitNode\<close> below, so the definitions
  here are the bodies up to the super call.
\<close>

definition visitClassDeclaration :: "node \<Rightarrow> Walker \<Rightarrow> Walker" where
  "visitClassDeclaration n w =
     (if \<not> hasModifier (modifiers n) ExportKeyword
      then w\<lparr>identifiers := Map_set (identifiers w) (name n) False\<rparr>
      else w)"

definition visitEnumDeclaration :: "node \<Rightarrow> Walker \<Rightarrow> Walker" where
  "visitEnumDeclaration n w =
     (if \<not> hasModifier (modifiers n) ExportKeyword
      then w\<lparr>identifiers := Map_set (identifiers w) (name n) False\<rparr>
      else w)"

definition visitFunctionDeclaration :: "node \<Rightarrow> Walker \<Rightarrow> Walker" where
  "visitFunctionDeclaration n w =
     (if name n \<noteq> None \<and> \<not> hasModifier (modifiers n) ExportKeyword
      then w\<lparr>identifiers := Map_set (identifiers w) (name n) False\<rparr>
      else w)"

definition markDeclaration :: "node \<Rightarrow> Walker \<Rightarrow> Walker" where
  "markDeclaration declaration w =
     (let identifier = getIdentifier declaration;
          isEnforced = Map_has (identifiers w) identifier
      in if isEnforced
         then w\<lparr>identifiers := Map_set (identifiers w) identifier True\<rparr>
         else w)"

definition visitIdentifier :: "host \<Rightarrow> node \<Rightarrow> Walker \<Rightarrow> error + Walker" where
  "visitIdentifier H n w =
     (let isDeclaration = Map_has (identifiers w) (Some n)
      in if \<not> isDeclaration \<and> \<not> isReassignmentTarget H n then
           (case getSymbolAtLocation H n of
              None \<Rightarrow> Inl TypeError
            | Some symbol \<Rightarrow>
                (case getDeclarations symbol of
                   None \<Rightarrow> Inl TypeError
                 | Some declarations \<Rightarrow> Inr (fold markDeclaration declarations w)))
         else Inr w)"

definition importElement :: "node \<Rightarrow> Walker \<Rightarrow> Walker" where
  "importElement element w =
     (let w1 = (if propertyName element \<noteq> None
                then w\<lparr>identifiers := Map_set (identifiers w) (propertyName element) True\<rparr>
                else w)
      in w1\<lparr>identifiers := Map_set (identifiers w1) (name element) False\<rparr>)"

definition visitNamedImports :: "node \<Rightarrow> Walker \<Rightarrow> Walker" where
  "visitNamedImports n w = fold importElement (elements n) w"

definition visitNamespaceImport :: "node \<Rightarrow> Walker \<Rightarrow> Walker" where
  "visitNamespaceImport n w = w\<lparr>identifiers := Map_set (identifiers w) (name n) False\<rparr>"

definition declareVariable :: "node \<Rightarrow> Walker \<Rightarrow> Walker" where
  "declareVariable declaration w =
     w\<lparr>identifiers := Map_set (identifiers w) (name declaration) False\<rparr>"

definition visitVariableStatement :: "host \<Rightarrow> node \<Rightarrow> Walker \<Rightarrow> error + Walker" where
  "visitVariableStatement H n w =
     (if \<not> hasModifier (modifiers n) ExportKeyword then
        (case declarationList n of
           None \<Rightarrow> Inl TypeError
         | Some dl \<Rightarrow> Inr (fold declareVariable (forEachDeclaredVariable H dl) w))
      else Inr w)"

text \<open>
  The switch of the framework's \<open>visitNode\<close> on the kind of the node, for the kinds the
  walker overrides; every other kind only walks the children.
\<close>

definition visitKind :: "host \<Rightarrow> node \<Rightarrow> Walker \<Rightarrow> error + Walker" where
  "visitKind H n w =
     (if kind n = ClassDeclaration then Inr (visitClassDeclaration n w)
      else if kind n = EnumDeclaration then Inr (visitEnumDeclaration n w)
      else if kind n = FunctionDeclaration then Inr (visitFunctionDeclaration n w)
      else if kind n = Identifier then visitIdentifier H n w
      else if kind n = NamedImports then Inr (visitNamedImports n w)
      else if kind n = NamespaceImport then Inr (visitNamespaceImport n w)
      else if kind n = VariableStatement then visitVariableStatement H n w
      else Inr w)"

text \<open>
  \<open>Walker.visitNode\<close>: the super call (the visit method of the kind, then the children in
  order), then \<open>onSourceFileEnd\<close> when the node is the source file.
\<close>

fun visitNode :: "host \<Rightarrow> node \<Rightarrow> Walker \<Rightarrow> error + Walker"
  and walkChildren :: "host \<Rightarrow> (string \<times> node) list \<Rightarrow> Walker \<Rightarrow> error + Walker" where
  "visitNode H (Node i k p e t ms ps) w =
     (case visitKind H (Node i k p e t ms ps) w of
        Inl err \<Rightarrow> Inl err
      | Inr w1 \<Rightarrow>
          (case walkChildren H ps w1 of
             Inl err \<Rightarrow> Inl err
           | Inr w2 \<Rightarrow> if k = SourceFile then onSourceFileEnd w2 else Inr w2))"
| "walkChildren H [] w = Inr w"
| "walkChildren H ((key, child) # rest) w =
     (case visitNode H child w of
        Inl err \<Rightarrow> Inl err
      | Inr w' \<Rightarrow> walkChildren H rest w')"

text \<open>
  \<open>Rule.applyWithProgram\<close>: a new walker (an empty map, no failures) walks the source
  file and its failures are returned.
\<close>

definition newWalker :: Walker where
  "newWalker = \<lparr>failures = [], identifiers = []\<rparr>"

definition applyWithProgram :: "host \<Rightarrow> node \<Rightarrow> error + node list" where
  "applyWithProgram H sourceFile =
     (case visitNode H sourceFile newWalker of
        Inl err \<Rightarrow> Inl err
      | Inr w \<Rightarrow> Inr (failures w))"

section \<open>The rule no-unsafe-callback-scope\<close>

subsection \<open>Regular expressions\<close>

text \<open>
  The two regular expressions of the rule use literal characters, one character range,
  alternation and the anchors \<open>^\<close> and \<open>$\<close> (neither has a flag, so \<open>^\<close> is the start and
  \<open>$\<close> the end of the input, and \<open>test\<close> keeps no state).  \<open>matches r s i\<close> lists the
  indexes at which a match of \<open>r\<close> that starts at index \<open>i\<close> of \<open>s\<close> can end; \<open>test\<close> looks
  for a match from any start index.
\<close>

datatype RegExp =
    Chars string
  | Range char char
  | Alt RegExp RegExp
  | Seq RegExp RegExp
  | BOL
  | EOL

fun matches :: "RegExp \<Rightarrow> string \<Rightarrow> nat \<Rightarrow> nat list" where
  "matches (Chars cs) s i = (if take (length cs) (drop i s) = cs then [i + length cs] else [])"
| "matches (Range a b) s i =
     (if i < length s \<and> (of_char a :: nat) \<le> of_char (s ! i) \<and> (of_char (s ! i) :: nat) \<le> of_char b
      then [Suc i] else [])"
| "matches (Alt r1 r2) s i = matches r1 s i @ matches r2 s i"
| "matches (Seq r1 r2) s i = concat (map (matches r2 s) (matches r1 s i))"
| "matches BOL s i = (if i = 0 then [i] else [])"
| "matches EOL s i = (if i = length s then [i] else [])"

definition RegExp_test :: "RegExp \<Rightarrow> string \<Rightarrow> bool" where
  "RegExp_test r s = list_ex (\<lambda>i. matches r s i \<noteq> []) [0..<Suc (length s)]"

fun alternatives :: "string list \<Rightarrow> RegExp" where
  "alternatives [] = Chars []"
| "alternatives [l] = Chars l"
| "alternatives (l # ls) = Alt (Chars l) (alternatives ls)"

text \<open>
  \<^verbatim>\<open>/^(Array|BigInt|Date|Intl|JSON|Math|Number|Object|Promise|Proxy|Reflect|String|Symbol|console)$/\<close>
\<close>

definition knownGlobalRegExp :: RegExp where
  "knownGlobalRegExp =
     Seq BOL (Seq (alternatives [''Array'', ''BigInt'', ''Date'', ''Intl'', ''JSON'', ''Math'',
       ''Number'', ''Object'', ''Promise'', ''Proxy'', ''Reflect'', ''String'', ''Symbol'',
       ''console'']) EOL)"

text \<open>\<^verbatim>\<open>/^[A-Z]/\<close>\<close>

definition upperCaseRegExp :: RegExp where
  "upperCaseRegExp = Seq BOL (Range CHR ''A'' CHR ''Z'')"

subsection \<open>The walker\<close>

text \<open>
  The rule's walker extends \<open>ScopeWalker\<close> (of \<open>../support\<close>, not among the source files),
  which keeps the stack of the callbacks that are open around the node being visited and
  the map from a callback to the expression it is an argument of.  The walker adds its
  three options.
\<close>

record ScopeWalker = RuleWalker +
  callbackStack :: "node list"
  callbackMap :: "(node \<times> node) list"

record CallbackScopeWalker = ScopeWalker +
  allowMethods :: bool
  allowParameters :: bool
  allowProperties :: bool

record Options =
  opt_allowMethods :: "bool option"
  opt_allowParameters :: "bool option"
  opt_allowProperties :: "bool option"

text \<open>
  The constructor: the defaults are \<open>true\<close>, \<open>true\<close> and \<open>false\<close>; an option that is given
  replaces its default.
\<close>

definition newCallbackScopeWalker :: "Options option \<Rightarrow> CallbackScopeWalker" where
  "newCallbackScopeWalker options =
     \<lparr>failures = [], callbackStack = [], callbackMap = [],
      allowMethods =
        (case options of None \<Rightarrow> True
         | Some opts \<Rightarrow> (case opt_allowMethods opts of Some b \<Rightarrow> b | None \<Rightarrow> True)),
      allowParameters =
        (case options of None \<Rightarrow> True
         | Some opts \<Rightarrow> (case opt_allowParameters opts of Some b \<Rightarrow> b | None \<Rightarrow> True)),
      allowProperties =
        (case options of None \<Rightarrow> False
         | Some opts \<Rightarrow> (case opt_allowProperties opts of Some b \<Rightarrow> b | None \<Rightarrow> False))\<rparr>"

definition isIdentifier :: "node \<Rightarrow> bool" where
  "isIdentifier n = (kind n = Identifier)"

definition isPropertyAccessExpression :: "node \<Rightarrow> bool" where
  "isPropertyAccessExpression n = (kind n = PropertyAccessExpression)"

definition isQualifiedName :: "node \<Rightarrow> bool" where
  "isQualifiedName n = (kind n = QualifiedName)"

definition isCallExpression :: "node \<Rightarrow> bool" where
  "isCallExpression n = (kind n = CallExpression)"

definition isTaggedTemplateExpression :: "node \<Rightarrow> bool" where
  "isTaggedTemplateExpression n = (kind n = TaggedTemplateExpression)"

definition isNewExpression :: "node \<Rightarrow> bool" where
  "isNewExpression n = (kind n = NewExpression)"

definition isTypeReferenceNode :: "node \<Rightarrow> bool" where
  "isTypeReferenceNode n = (kind n = TypeReference)"

definition isImportSpecifier :: "node \<Rightarrow> bool" where
  "isImportSpecifier n = (kind n = ImportSpecifier)"

definition isNamespaceImport :: "node \<Rightarrow> bool" where
  "isNamespaceImport n = (kind n = NamespaceImport)"

text \<open>
  \<open>isWithinClosure\<close>; the callback is \<open>callbackStack[0]\<close>, which is \<open>undefined\<close> when the
  stack is empty, and reading its \<open>pos\<close> then throws.
\<close>

definition isWithinClosure :: "node \<Rightarrow> node option \<Rightarrow> error + bool" where
  "isWithinClosure declaration callback =
     (case callback of
        None \<Rightarrow> Inl TypeError
      | Some c \<Rightarrow> Inr (pos declaration \<ge> pos c \<and> pos declaration < end' c))"

definition isPropertyAccessExpressionLeaf :: "host \<Rightarrow> node \<Rightarrow> bool" where
  "isPropertyAccessExpressionLeaf H n =
     (let p = parent H n
      in if \<not> isPropertyAccessExpression p then False
         else if Some n \<noteq> name p then False
         else \<not> isPropertyAccessExpression (parent H p))"

text \<open>
  The loop of \<open>getPropertyAccessExpressionRoot\<close>: while the expression is a property
  access, go to its expression.  Testing the kind of \<open>undefined\<close> throws.
\<close>

function whileExpression :: "node option \<Rightarrow> error + node" where
  "whileExpression None = Inl TypeError"
| "whileExpression (Some e) =
     (if isPropertyAccessExpression e then whileExpression (expression e) else Inr e)"
  by pat_completeness auto
termination
proof (relation "measure (\<lambda>eo. case eo of None \<Rightarrow> 0 | Some e \<Rightarrow> size e)")
  show "wf (measure (\<lambda>eo. case eo of None \<Rightarrow> 0 | Some e \<Rightarrow> size e))"
    by simp
next
  fix e :: node
  have sub: "map_of ps k = Some c \<Longrightarrow> size c < Suc (size_list (size_prod (\<lambda>_. 0) size) ps)"
    for ps :: "(string \<times> node) list" and k c
    by (induction ps) (auto split: if_splits)
  show "(expression e, Some e) \<in> measure (\<lambda>eo. case eo of None \<Rightarrow> 0 | Some e \<Rightarrow> size e)"
  proof (cases e)
    case (Node i k p e' t ms ps)
    then show ?thesis
      using sub [of ps "''expression''"]
      by (auto simp: expression_def property_def split: option.splits)
  qed
qed

definition getPropertyAccessExpressionRoot :: "host \<Rightarrow> node \<Rightarrow> error + node option" where
  "getPropertyAccessExpressionRoot H n =
     (case whileExpression (expression n) of
        Inl err \<Rightarrow> Inl err
      | Inr e \<Rightarrow> Inr (if isThis H e \<or> isIdentifier e then Some e else None))"

text \<open>
  \<open>isUnsafeRoot\<close> and \<open>isUnsafe\<close> return the node to report, or \<open>undefined\<close> (\<open>None\<close>) for a
  safe reference.  \<open>isUnsafe\<close> also reads the last callback of the stack and its entry
  in \<open>callbackMap\<close> into two locals that it never uses; they are left out.
\<close>

definition isUnsafeRoot ::
  "host \<Rightarrow> CallbackScopeWalker \<Rightarrow> node \<Rightarrow> node option \<Rightarrow> error + node option" where
  "isUnsafeRoot H w n callback =
     (if isQualifiedName (parent H n) then Inr None
      else if isInstanceofCtor H n then Inr None
      else
        (case findDeclaration H n of
           None \<Rightarrow> Inr None
         | Some declaration \<Rightarrow>
             (case isWithinClosure declaration callback of
                Inl err \<Rightarrow> Inl err
              | Inr within \<Rightarrow>
                  if within then Inr None
                  else if allowParameters w \<and> isWithinParameterDeclaration H declaration
                    then Inr None
                  else if isCallExpression (parent H n) \<and> Some n = expression (parent H n)
                    then Inr None
                  else if isTaggedTemplateExpression (parent H n) \<and> Some n = tag (parent H n)
                    then Inr None
                  else if isNewExpression (parent H n) then Inr None
                  else if isTypeReferenceNode (parent H n) then Inr None
                  else if isConstDeclaration H declaration then Inr None
                  else if isImportSpecifier declaration then Inr None
                  else if isNamespaceImport declaration then Inr None
                  else Inr (Some n))))"

definition rootCallback :: "CallbackScopeWalker \<Rightarrow> node option" where
  "rootCallback w = (case callbackStack w of [] \<Rightarrow> None | c # _ \<Rightarrow> Some c)"

definition isUnsafe :: "host \<Rightarrow> CallbackScopeWalker \<Rightarrow> node \<Rightarrow> error + node option" where
  "isUnsafe H w n =
     (if isPropertyAccessExpression (parent H n) then
        if \<not> isPropertyAccessExpressionLeaf H n then Inr None
        else
          (case findDeclaration H n of
             None \<Rightarrow> Inr None
           | Some declaration \<Rightarrow>
               if hasModifier (modifiers declaration) ReadonlyKeyword then Inr None
               else if isTypeFlagSet (getTypeAtLocation H n) EnumLiteral then Inr None
               else
                 (let called = isWithinCallExpressionExpression H n
                  in case getPropertyAccessExpressionRoot H (parent H n) of
                       Inl err \<Rightarrow> Inl err
                     | Inr None \<Rightarrow> Inr None
                     | Inr (Some root) \<Rightarrow>
                         if isThis H root then
                           (if called
                            then Inr (if allowMethods w then None else Some root)
                            else Inr (if allowProperties w then None else Some root))
                         else
                           (let rootText = getText root
                            in if RegExp_test knownGlobalRegExp rootText then Inr None
                               else if RegExp_test upperCaseRegExp rootText then
                                 (if called
                                  then Inr (if allowMethods w then None else Some root)
                                  else Inr (if allowProperties w then None else Some root))
                               else isUnsafeRoot H w root (rootCallback w))))
      else isUnsafeRoot H w n (rootCallback w))"

text \<open>
  \<open>Walker.visitNode\<close>: inside a callback an identifier or \<open>this\<close> is classified and the
  node \<open>isUnsafe\<close> returns is reported; then the super call, the \<open>visitNode\<close> of
  \<open>ScopeWalker\<close>, which is a parameter here.  \<open>validate\<close> is the part before the super
  call.
\<close>

definition validate :: "host \<Rightarrow> node \<Rightarrow> CallbackScopeWalker \<Rightarrow> error + CallbackScopeWalker" where
  "validate H n w =
     (if length (callbackStack w) \<noteq> 0 then
        (let validateNode = isIdentifier n \<or> isThis H n
         in if validateNode then
              (case isUnsafe H w n of
                 Inl err \<Rightarrow> Inl err
               | Inr None \<Rightarrow> Inr w
               | Inr (Some failureNode) \<Rightarrow> addFailureAtNode (Some failureNode) w)
            else Inr w)
      else Inr w)"

definition CallbackScope_visitNode ::
  "host \<Rightarrow> (node \<Rightarrow> CallbackScopeWalker \<Rightarrow> error + CallbackScopeWalker) \<Rightarrow> node
     \<Rightarrow> CallbackScopeWalker \<Rightarrow> error + CallbackScopeWalker" where
  "CallbackScope_visitNode H super n w =
     (case validate H n w of
        Inl err \<Rightarrow> Inl err
      | Inr w' \<Rightarrow> super n w')"

subsection \<open>The traversal\<close>

text \<open>
  Modelled from the spec: the \<open>visitNode\<close> of \<open>ScopeWalker\<close>, which the walker of the rule
  calls as its super call and which is in \<open>../support\<close>, not among the source files.
  Section 4.2 of the specification: on entering a node that is a function or method
  literal and appears as an argument (not the callee) of a call, a constructor call or a
  tagged invocation, a callback context is made, recording the callee or tag of the
  enclosing invocation as its operator, and pushed; the traversal then proceeds into all
  descendants with this context on the stack; on leaving the node, after all descendants
  are visited, the context is popped.  The literal is the entry of \<open>callbackStack\<close> and
  the operator its entry in \<open>callbackMap\<close>; the descendants are visited through the
  \<open>visitNode\<close> of the rule's walker, as the framework does for every child.
\<close>

definition isCallback :: "host \<Rightarrow> node \<Rightarrow> bool" where
  "isCallback H n =
     (kind n \<in> {ArrowFunction, FunctionExpression, MethodDeclaration} \<and>
      (let p = parent H n
       in ((isCallExpression p \<or> isNewExpression p) \<and> Some n \<noteq> expression p) \<or>
          (isTaggedTemplateExpression p \<and> Some n \<noteq> tag p)))"

definition operator :: "host \<Rightarrow> node \<Rightarrow> node option" where
  "operator H n =
     (let p = parent H n
      in if isTaggedTemplateExpression p then tag p else expression p)"

definition pushCallback :: "host \<Rightarrow> node \<Rightarrow> CallbackScopeWalker \<Rightarrow> CallbackScopeWalker" where
  "pushCallback H n w =
     w\<lparr>callbackStack := callbackStack w @ [n],
       callbackMap :=
         (case operator H n of
            None \<Rightarrow> callbackMap w
          | Some e \<Rightarrow> callbackMap w @ [(n, e)])\<rparr>"

definition popCallback :: "node \<Rightarrow> CallbackScopeWalker \<Rightarrow> CallbackScopeWalker" where
  "popCallback n w =
     w\<lparr>callbackStack := butlast (callbackStack w),
       callbackMap := filter (\<lambda>entry. fst entry \<noteq> n) (callbackMap w)\<rparr>"

definition ScopeWalker_visitNode ::
  "host \<Rightarrow> ((string \<times> node) list \<Rightarrow> CallbackScopeWalker \<Rightarrow> error + CallbackScopeWalker)
     \<Rightarrow> node \<Rightarrow> CallbackScopeWalker \<Rightarrow> error + CallbackScopeWalker" where
  "ScopeWalker_visitNode H descend n w =
     (if isCallback H n then
        (case descend (props n) (pushCallback H n w) of
           Inl err \<Rightarrow> Inl err
         | Inr w' \<Rightarrow> Inr (popCallback n w'))
      else descend (props n) w)"

text \<open>
  The walk of the rule: \<open>Walker.visitNode\<close> at every node, with the traversal above as
  its super call (\<open>CallbackScope_walk_visitNode\<close> below states it in these words).
\<close>

fun CallbackScope_walk :: "host \<Rightarrow> node \<Rightarrow> CallbackScopeWalker \<Rightarrow> error + CallbackScopeWalker"
  and CallbackScope_walkChildren ::
    "host \<Rightarrow> (string \<times> node) list \<Rightarrow> CallbackScopeWalker \<Rightarrow> error + CallbackScopeWalker" where
  "CallbackScope_walk H (Node i k p e t ms ps) w =
     (case validate H (Node i k p e t ms ps) w of
        Inl err \<Rightarrow> Inl err
      | Inr w1 \<Rightarrow>
          if isCallback H (Node i k p e t ms ps) then
            (case CallbackScope_walkChildren H ps (pushCallback H (Node i k p e t ms ps) w1) of
               Inl err \<Rightarrow> Inl err
             | Inr w2 \<Rightarrow> Inr (popCallback (Node i k p e t ms ps) w2))
          else CallbackScope_walkChildren H ps w1)"
| "CallbackScope_walkChildren H [] w = Inr w"
| "CallbackScope_walkChildren H ((key, child) # rest) w =
     (case CallbackScope_walk H child w of
        Inl err \<Rightarrow> Inl err
      | Inr w' \<Rightarrow> CallbackScope_walkChildren H rest w')"

section \<open>Walker objects and passes\<close>

text \<open>
  \<open>Rule.applyWithProgram\<close> of either rule is
  \<^verbatim>\<open>return this.applyWithWalker(new Walker(sourceFile, this.getOptions(), program))\<close>.
  \<open>new\<close> makes an object that did not exist before: the store lists the walker objects
  made so far, oldest first, and a reference to a walker is its index in the store.
  \<open>applyWithWalker\<close> of the framework walks the source file with the walker it is handed,
  which changes that object, and returns the failures the object holds at the end.  When
  the walk throws, nothing is returned; what the walk had done to the object by then is
  not modelled, and the store keeps the object as it was made.  A reference always
  refers to an object; for an index outside the store nothing is walked and the store is
  left as it is.
\<close>

definition newObject :: "'w \<Rightarrow> 'w list \<Rightarrow> nat \<times> 'w list" where
  "newObject obj store = (length store, store @ [obj])"

definition applyWithWalker ::
  "('a RuleWalker_scheme \<Rightarrow> error + 'a RuleWalker_scheme) \<Rightarrow> nat \<Rightarrow> 'a RuleWalker_scheme list
     \<Rightarrow> (error + node list) \<times> 'a RuleWalker_scheme list" where
  "applyWithWalker walk walker store =
     (if walker < length store then
        (case walk (store ! walker) of
           Inl err \<Rightarrow> (Inl err, store)
         | Inr w \<Rightarrow> (Inr (failures w), store[walker := w]))
      else (Inl TypeError, store))"

definition UnusedDeclaration_applyWithProgram ::
  "host \<Rightarrow> node \<Rightarrow> Walker list \<Rightarrow> (error + node list) \<times> Walker list" where
  "UnusedDeclaration_applyWithProgram H sourceFile store =
     (case newObject newWalker store of
        (walker, store') \<Rightarrow> applyWithWalker (visitNode H sourceFile) walker store')"

definition CallbackScope_applyWithProgram ::
  "host \<Rightarrow> Options option \<Rightarrow> node \<Rightarrow> CallbackScopeWalker list
     \<Rightarrow> (error + node list) \<times> CallbackScopeWalker list" where
  "CallbackScope_applyWithProgram H options sourceFile store =
     (case newObject (newCallbackScopeWalker options) store of
        (walker, store') \<Rightarrow> applyWithWalker (CallbackScope_walk H sourceFile) walker store')"

section \<open>Notions the properties are stated with\<close>

text \<open>
  The innermost expression of a member-access chain: from a property access, follow
  \<open>expression\<close> through the property accesses below it.
\<close>

inductive innermost :: "node \<Rightarrow> node \<Rightarrow> bool" where
  innermost_here:
    "expression p = Some e \<Longrightarrow> \<not> isPropertyAccessExpression e \<Longrightarrow> innermost p e"
| innermost_deeper:
    "expression p = Some q \<Longrightarrow> isPropertyAccessExpression q \<Longrightarrow> innermost q e
       \<Longrightarrow> innermost p e"

text \<open>
  The nodes of a tree in the order of the walk (a node before its children, the children
  in the order of \<open>props\<close>), and the visits of a list of nodes one after the other.
\<close>

fun nodes :: "node \<Rightarrow> node list"
  and propNodes :: "(string \<times> node) list \<Rightarrow> node list" where
  "nodes (Node i k p e t ms ps) = Node i k p e t ms ps # propNodes ps"
| "propNodes [] = []"
| "propNodes ((key, child) # rest) = nodes child @ propNodes rest"

fun visitAll :: "host \<Rightarrow> node list \<Rightarrow> Walker \<Rightarrow> error + Walker" where
  "visitAll H [] w = Inr w"
| "visitAll H (n # ns) w =
     (case visitKind H n w of Inl err \<Rightarrow> Inl err | Inr w' \<Rightarrow> visitAll H ns w')"

text \<open>
  What the visit of one node does to the registry: \<open>declaredNames\<close> are the name tokens
  it enters as unused, \<open>renamedNames\<close> the source-side names of renaming import
  specifiers, which it enters as used, and \<open>referencedNames\<close> the name tokens of the
  declarations an identifier (that is not a reassignment target) resolves to.
\<close>

definition declaredNames :: "host \<Rightarrow> node \<Rightarrow> node option list" where
  "declaredNames H n =
     (if kind n = ClassDeclaration \<or> kind n = EnumDeclaration then
        (if hasModifier (modifiers n) ExportKeyword then [] else [name n])
      else if kind n = FunctionDeclaration then
        (if name n \<noteq> None \<and> \<not> hasModifier (modifiers n) ExportKeyword then [name n] else [])
      else if kind n = NamedImports then map name (elements n)
      else if kind n = NamespaceImport then [name n]
      else if kind n = VariableStatement then
        (if hasModifier (modifiers n) ExportKeyword then []
         else (case declarationList n of
                 None \<Rightarrow> []
               | Some dl \<Rightarrow> map name (forEachDeclaredVariable H dl)))
      else [])"

definition renamedNames :: "node \<Rightarrow> node option list" where
  "renamedNames n =
     (if kind n = NamedImports
      then filter (\<lambda>k. k \<noteq> None) (map propertyName (elements n))
      else [])"

definition referencedNames :: "host \<Rightarrow> node \<Rightarrow> node option list" where
  "referencedNames H n =
     (if kind n = Identifier \<and> \<not> isReassignmentTarget H n then
        (case getSymbolAtLocation H n of
           None \<Rightarrow> []
         | Some symbol \<Rightarrow>
             (case getDeclarations symbol of
                None \<Rightarrow> []
              | Some declarations \<Rightarrow> map getIdentifier declarations))
      else [])"

text \<open>The registry of a walker as a lookup.\<close>

abbreviation look :: "Walker \<Rightarrow> node option \<Rightarrow> bool option" where
  "look w \<equiv> map_of (identifiers w)"

section \<open>Example files\<close>

text \<open>
  A host that resolves nothing; the examples override the services they need.
\<close>

definition baseHost :: host where
  "baseHost =
     \<lparr>parent = (\<lambda>n. n), getSymbolAtLocation = (\<lambda>n. None), getTypeAtLocation = (\<lambda>n. []),
      isReassignmentTarget = (\<lambda>n. False), forEachDeclaredVariable = (\<lambda>n. []),
      findDeclaration = (\<lambda>n. None), isConstDeclaration = (\<lambda>n. False),
      isInstanceofCtor = (\<lambda>n. False), isThis = (\<lambda>n. kind n = ThisKeyword),
      isWithinCallExpressionExpression = (\<lambda>n. False),
      isWithinParameterDeclaration = (\<lambda>n. False)\<rparr>"

subsection \<open>An identifier without a symbol: \<^verbatim>\<open>missing;\<close>\<close>

definition missingRef :: node where
  "missingRef = Node 2 Identifier 0 7 ''missing'' [] []"

definition missingFile :: node where
  "missingFile =
     Node 0 SourceFile 0 8 ''missing;'' []
       [(''statements'', Node 1 ExpressionStatement 0 8 ''missing;'' []
           [(''expression'', missingRef)])]"

subsection \<open>An identifier whose symbol has no declarations:
  \<^verbatim>\<open>function f() { arguments; }\<close>\<close>

text \<open>
  The type checker resolves \<open>arguments\<close> in a function body to a symbol of its own, for
  which \<open>getDeclarations()\<close> returns \<open>undefined\<close>.
\<close>

definition argumentsRef :: node where
  "argumentsRef = Node 5 Identifier 14 24 ''arguments'' [] []"

definition argumentsName :: node where
  "argumentsName = Node 6 Identifier 8 10 ''f'' [] []"

definition argumentsFunction :: node where
  "argumentsFunction =
     Node 4 FunctionDeclaration 0 27 ''function f() { arguments; }'' []
       [(''name'', argumentsName),
        (''body'', Node 7 Block 12 27 ''{ arguments; }'' []
           [(''statements'', Node 8 ExpressionStatement 14 25 ''arguments;'' []
               [(''expression'', argumentsRef)])])]"

definition argumentsFile :: node where
  "argumentsFile =
     Node 3 SourceFile 0 27 ''function f() { arguments; }'' []
       [(''statements'', argumentsFunction)]"

definition argumentsHost :: host where
  "argumentsHost = baseHost
     \<lparr>getSymbolAtLocation :=
        (\<lambda>n. if n = argumentsRef then Some (Symbol None)
              else if n = argumentsName then Some (Symbol (Some [argumentsFunction]))
              else None)\<rparr>"

subsection \<open>Scenario D: \<^verbatim>\<open>list.forEach(() => { const y = 2; return y; })\<close>\<close>

definition yRef :: node where
  "yRef = Node 18 Identifier 39 41 ''y'' [] []"

definition yReturn :: node where
  "yReturn = Node 17 ReturnStatement 32 42 ''return y;'' [] [(''expression'', yRef)]"

definition yDecl :: node where
  "yDecl =
     Node 14 VariableDeclaration 25 31 ''y = 2'' []
       [(''name'', Node 15 Identifier 25 27 ''y'' [] []),
        (''initializer'', Node 16 NumericLiteral 29 31 ''2'' [] [])]"

definition arrowD :: node where
  "arrowD =
     Node 10 ArrowFunction 13 45 ''() => { const y = 2; return y; }'' []
       [(''body'', Node 11 Block 18 45 ''{ const y = 2; return y; }'' []
          [(''statements'', Node 12 VariableStatement 20 32 ''const y = 2;'' []
              [(''declarationList'', Node 13 VariableDeclarationList 20 31 ''const y = 2'' []
                  [(''declarations'', yDecl)])]),
           (''statements'', yReturn)])]"

definition hostD :: host where
  "hostD = baseHost
     \<lparr>parent := (\<lambda>n. if n = yRef then yReturn else n),
      findDeclaration := (\<lambda>n. if n = yRef then Some yDecl else None),
      isConstDeclaration := (\<lambda>d. d = yDecl)\<rparr>"

definition walkerD :: CallbackScopeWalker where
  "walkerD = (newCallbackScopeWalker None)\<lparr>callbackStack := [arrowD]\<rparr>"

subsection \<open>Scenario C:
  \<^verbatim>\<open>class C { readonly v = 1; m(){ list.forEach(() => this.v); } }\<close>\<close>

definition vName :: node where
  "vName = Node 26 Identifier 54 55 ''v'' [] []"

definition thisC :: node where
  "thisC = Node 25 ThisKeyword 48 53 ''this'' [] []"

definition thisV :: node where
  "thisV =
     Node 24 PropertyAccessExpression 48 55 ''this.v'' []
       [(''expression'', thisC), (''name'', vName)]"

definition arrowC :: node where
  "arrowC = Node 23 ArrowFunction 43 55 ''() => this.v'' [] [(''body'', thisV)]"

definition vDecl :: node where
  "vDecl =
     Node 20 PropertyDeclaration 9 25 ''readonly v = 1;'' [ReadonlyKeyword]
       [(''name'', Node 21 Identifier 18 20 ''v'' [] []),
        (''initializer'', Node 22 NumericLiteral 22 24 ''1'' [] [])]"

definition hostC :: host where
  "hostC = baseHost
     \<lparr>parent := (\<lambda>n. if n = vName \<or> n = thisC then thisV else if n = thisV then arrowC else n),
      findDeclaration := (\<lambda>n. if n = vName then Some vDecl else None)\<rparr>"

definition walkerC :: CallbackScopeWalker where
  "walkerC = (newCallbackScopeWalker None)\<lparr>callbackStack := [arrowC]\<rparr>"

subsection \<open>A chain of two steps in a callback: \<^verbatim>\<open>list.forEach(() => a.b.c)\<close>\<close>

definition aId :: node where
  "aId = Node 33 Identifier 19 20 ''a'' [] []"

definition bId :: node where
  "bId = Node 34 Identifier 21 22 ''b'' [] []"

definition cId :: node where
  "cId = Node 35 Identifier 23 24 ''c'' [] []"

definition aDotB :: node where
  "aDotB = Node 32 PropertyAccessExpression 19 22 ''a.b'' [] [(''expression'', aId), (''name'', bId)]"

definition aDotBDotC :: node where
  "aDotBDotC =
     Node 31 PropertyAccessExpression 19 24 ''a.b.c'' [] [(''expression'', aDotB), (''name'', cId)]"

definition arrowABC :: node where
  "arrowABC = Node 30 ArrowFunction 13 24 ''() => a.b.c'' [] [(''body'', aDotBDotC)]"

definition hostABC :: host where
  "hostABC = baseHost
     \<lparr>parent := (\<lambda>n. if n = aId \<or> n = bId then aDotB
                      else if n = aDotB \<or> n = cId then aDotBDotC
                      else if n = aDotBDotC then arrowABC else n),
      findDeclaration := (\<lambda>n. Some (Node 36 VariableDeclaration 3 8 ''a = o'' [] []))\<rparr>"

definition walkerABC :: CallbackScopeWalker where
  "walkerABC = (newCallbackScopeWalker None)\<lparr>callbackStack := [arrowABC]\<rparr>"

subsection \<open>A global at the root of a chain: \<^verbatim>\<open>list.forEach(v => console.log(v))\<close>\<close>

definition consoleId :: node where
  "consoleId = Node 43 Identifier 18 25 ''console'' [] []"

definition logId :: node where
  "logId = Node 44 Identifier 26 29 ''log'' [] []"

definition consoleLog :: node where
  "consoleLog =
     Node 42 PropertyAccessExpression 18 29 ''console.log'' []
       [(''expression'', consoleId), (''name'', logId)]"

definition consoleCall :: node where
  "consoleCall =
     Node 41 CallExpression 18 32 ''console.log(v)'' []
       [(''expression'', consoleLog), (''arguments'', Node 45 Identifier 30 31 ''v'' [] [])]"

definition arrowLog :: node where
  "arrowLog = Node 40 ArrowFunction 13 32 ''v => console.log(v)'' [] [(''body'', consoleCall)]"

definition hostLog :: host where
  "hostLog = baseHost
     \<lparr>parent := (\<lambda>n. if n = consoleId \<or> n = logId then consoleLog
                      else if n = consoleLog then consoleCall
                      else if n = consoleCall then arrowLog else n),
      findDeclaration :=
        (\<lambda>n. if n = logId then Some (Node 46 MethodSignature 0 0 ''log(...data: any[]): void;'' [] [])
              else None),
      isWithinCallExpressionExpression := (\<lambda>n. n = logId)\<rparr>"

definition walkerLog :: CallbackScopeWalker where
  "walkerLog = (newCallbackScopeWalker None)\<lparr>callbackStack := [arrowLog]\<rparr>"

subsection \<open>A call result at the root of a chain: \<^verbatim>\<open>list.forEach(() => make().size)\<close>\<close>

definition makeCall :: node where
  "makeCall =
     Node 52 CallExpression 19 25 ''make()'' [] [(''expression'', Node 53 Identifier 19 23 ''make'' [] [])]"

definition sizeId :: node where
  "sizeId = Node 54 Identifier 26 30 ''size'' [] []"

definition makeSize :: node where
  "makeSize =
     Node 51 PropertyAccessExpression 19 30 ''make().size'' []
       [(''expression'', makeCall), (''name'', sizeId)]"

definition arrowMake :: node where
  "arrowMake = Node 50 ArrowFunction 13 30 ''() => make().size'' [] [(''body'', makeSize)]"

definition hostMake :: host where
  "hostMake = baseHost
     \<lparr>parent := (\<lambda>n. if n = sizeId \<or> n = makeCall then makeSize
                      else if n = makeSize then arrowMake else n),
      findDeclaration :=
        (\<lambda>n. if n = sizeId then Some (Node 55 PropertyDeclaration 40 52 ''size = 0;'' [] [])
              else None)\<rparr>"

definition walkerMake :: CallbackScopeWalker where
  "walkerMake = (newCallbackScopeWalker None)\<lparr>callbackStack := [arrowMake]\<rparr>"

subsection \<open>Scenario A:
  \<^verbatim>\<open>function outer(){ let x = 1; list.forEach(v => { x = v; }); }\<close>\<close>

definition xRef :: node where
  "xRef = Node 66 Identifier 48 50 ''x'' [] []"

definition xAssignment :: node where
  "xAssignment =
     Node 65 BinaryExpression 48 54 ''x = v'' []
       [(''left'', xRef), (''right'', Node 67 Identifier 52 54 ''v'' [] [])]"

definition arrowA :: node where
  "arrowA =
     Node 62 ArrowFunction 42 57 ''v => { x = v; }'' []
       [(''parameters'', Node 63 Parameter 42 43 ''v'' [] []),
        (''body'', Node 64 Block 46 57 ''{ x = v; }'' []
           [(''statements'', Node 68 ExpressionStatement 48 55 ''x = v;'' []
               [(''expression'', xAssignment)])])]"

definition xDecl :: node where
  "xDecl =
     Node 60 VariableDeclaration 21 27 ''x = 1'' []
       [(''name'', Node 61 Identifier 21 23 ''x'' [] [])]"

definition hostA :: host where
  "hostA = baseHost
     \<lparr>parent := (\<lambda>n. if n = xRef then xAssignment else n),
      findDeclaration := (\<lambda>n. if n = xRef then Some xDecl else None),
      isReassignmentTarget := (\<lambda>n. n = xRef)\<rparr>"

definition walkerA :: CallbackScopeWalker where
  "walkerA = (newCallbackScopeWalker None)\<lparr>callbackStack := [arrowA]\<rparr>"

subsection \<open>The right segment of a qualified name:
  \<^verbatim>\<open>let v = { a: 1 }; list.forEach(() => { let w: typeof v.a; });\<close>\<close>

definition qLeft :: node where
  "qLeft = Node 74 Identifier 52 54 ''v'' [] []"

definition qRight :: node where
  "qRight = Node 75 Identifier 55 56 ''a'' [] []"

definition qName :: node where
  "qName = Node 73 QualifiedName 52 56 ''v.a'' [] [(''left'', qLeft), (''right'', qRight)]"

definition arrowQ :: node where
  "arrowQ = Node 72 ArrowFunction 31 59 ''() => { let w: typeof v.a; }'' [] []"

definition aProperty :: node where
  "aProperty =
     Node 70 PropertyAssignment 9 14 ''a: 1'' [] [(''name'', Node 71 Identifier 9 11 ''a'' [] [])]"

definition hostQ :: host where
  "hostQ = baseHost
     \<lparr>parent := (\<lambda>n. if n = qLeft \<or> n = qRight then qName else n),
      findDeclaration := (\<lambda>n. if n = qRight then Some aProperty else None)\<rparr>"

definition walkerQ :: CallbackScopeWalker where
  "walkerQ = (newCallbackScopeWalker None)\<lparr>callbackStack := [arrowQ]\<rparr>"

subsection \<open>An argument of a constructor call:
  \<^verbatim>\<open>let x = 1; list.forEach(() => new Foo(x));\<close>\<close>

definition newTarget :: node where
  "newTarget = Node 83 Identifier 33 37 ''Foo'' [] []"

definition newArgument :: node where
  "newArgument = Node 84 Identifier 38 39 ''x'' [] []"

definition newFoo :: node where
  "newFoo =
     Node 82 NewExpression 29 40 ''new Foo(x)'' []
       [(''expression'', newTarget), (''arguments'', newArgument)]"

definition arrowN :: node where
  "arrowN = Node 81 ArrowFunction 24 40 ''() => new Foo(x)'' [] [(''body'', newFoo)]"

definition xDeclN :: node where
  "xDeclN =
     Node 80 VariableDeclaration 3 9 ''x = 1'' [] [(''name'', Node 85 Identifier 3 5 ''x'' [] [])]"

definition hostN :: host where
  "hostN = baseHost
     \<lparr>parent := (\<lambda>n. if n = newTarget \<or> n = newArgument then newFoo else n),
      findDeclaration := (\<lambda>n. if n = newArgument then Some xDeclN else None)\<rparr>"

definition walkerN :: CallbackScopeWalker where
  "walkerN = (newCallbackScopeWalker None)\<lparr>callbackStack := [arrowN]\<rparr>"

subsection \<open>A call before the declaration: \<^verbatim>\<open>foo(); function foo() {}\<close>\<close>

definition fooRef :: node where
  "fooRef = Node 103 Identifier 0 3 ''foo'' [] []"

definition fooName :: node where
  "fooName = Node 105 Identifier 15 19 ''foo'' [] []"

definition fooBody :: node where
  "fooBody = Node 106 Block 21 24 ''{}'' [] []"

definition fooDecl :: node where
  "fooDecl =
     Node 104 FunctionDeclaration 6 24 ''function foo() {}'' []
       [(''name'', fooName), (''body'', fooBody)]"

definition fooCall :: node where
  "fooCall = Node 102 CallExpression 0 5 ''foo()'' [] [(''expression'', fooRef)]"

definition fooStatement :: node where
  "fooStatement = Node 101 ExpressionStatement 0 6 ''foo();'' [] [(''expression'', fooCall)]"

definition hoistedFile :: node where
  "hoistedFile =
     Node 100 SourceFile 0 24 ''foo(); function foo() {}'' []
       [(''statements'', fooStatement), (''statements'', fooDecl)]"

definition hoistedHost :: host where
  "hoistedHost = baseHost
     \<lparr>getSymbolAtLocation :=
        (\<lambda>n. if n = fooRef \<or> n = fooName then Some (Symbol (Some [fooDecl])) else None)\<rparr>"

subsection \<open>Unused and exported declarations:
  \<^verbatim>\<open>function unused() {} let z = 1; export class K {}\<close>\<close>

definition unusedName :: node where
  "unusedName = Node 122 Identifier 8 15 ''unused'' [] []"

definition unusedFunction :: node where
  "unusedFunction =
     Node 121 FunctionDeclaration 0 20 ''function unused() {}'' []
       [(''name'', unusedName), (''body'', Node 123 Block 17 20 ''{}'' [] [])]"

definition zName :: node where
  "zName = Node 127 Identifier 24 26 ''z'' [] []"

definition zDeclaration :: node where
  "zDeclaration =
     Node 126 VariableDeclaration 24 30 ''z = 1'' []
       [(''name'', zName), (''initializer'', Node 128 NumericLiteral 28 30 ''1'' [] [])]"

definition zList :: node where
  "zList = Node 125 VariableDeclarationList 20 30 ''let z = 1'' [] [(''declarations'', zDeclaration)]"

definition zStatement :: node where
  "zStatement = Node 124 VariableStatement 20 31 ''let z = 1;'' [] [(''declarationList'', zList)]"

definition kName :: node where
  "kName = Node 130 Identifier 44 46 ''K'' [] []"

definition kClass :: node where
  "kClass = Node 129 ClassDeclaration 31 49 ''export class K {}'' [ExportKeyword] [(''name'', kName)]"

definition unusedFile :: node where
  "unusedFile =
     Node 120 SourceFile 0 49 ''function unused() {} let z = 1; export class K {}'' []
       [(''statements'', unusedFunction), (''statements'', zStatement), (''statements'', kClass)]"

definition unusedHost :: host where
  "unusedHost = baseHost
     \<lparr>getSymbolAtLocation :=
        (\<lambda>n. if n = unusedName then Some (Symbol (Some [unusedFunction]))
              else if n = zName then Some (Symbol (Some [zDeclaration]))
              else if n = kName then Some (Symbol (Some [kClass]))
              else None),
      forEachDeclaredVariable := (\<lambda>dl. if dl = zList then [zDeclaration] else [])\<rparr>"

subsection \<open>A recursive function and an unused one:
  \<^verbatim>\<open>function f() { f(); } function g() {}\<close>\<close>

definition fName :: node where
  "fName = Node 112 Identifier 8 10 ''f'' [] []"

definition fRef :: node where
  "fRef = Node 116 Identifier 14 16 ''f'' [] []"

definition fCall :: node where
  "fCall = Node 115 CallExpression 14 18 ''f()'' [] [(''expression'', fRef)]"

definition fStatement :: node where
  "fStatement = Node 114 ExpressionStatement 14 19 ''f();'' [] [(''expression'', fCall)]"

definition fBody :: node where
  "fBody = Node 113 Block 12 21 ''{ f(); }'' [] [(''statements'', fStatement)]"

definition fDecl :: node where
  "fDecl =
     Node 111 FunctionDeclaration 0 21 ''function f() { f(); }'' []
       [(''name'', fName), (''body'', fBody)]"

definition gName :: node where
  "gName = Node 118 Identifier 30 32 ''g'' [] []"

definition gBody :: node where
  "gBody = Node 119 Block 34 37 ''{}'' [] []"

definition gDecl :: node where
  "gDecl =
     Node 117 FunctionDeclaration 21 37 ''function g() {}'' []
       [(''name'', gName), (''body'', gBody)]"

definition recursiveFile :: node where
  "recursiveFile =
     Node 110 SourceFile 0 37 ''function f() { f(); } function g() {}'' []
       [(''statements'', fDecl), (''statements'', gDecl)]"

definition recursiveHost :: host where
  "recursiveHost = baseHost
     \<lparr>getSymbolAtLocation :=
        (\<lambda>n. if n = fRef \<or> n = fName then Some (Symbol (Some [fDecl]))
              else if n = gName then Some (Symbol (Some [gDecl]))
              else None)\<rparr>"

subsection \<open>A variable of a loop: \<^verbatim>\<open>for (let i = 0;;) {}\<close>\<close>







subsection \<open>A variable that is only incremented: \<^verbatim>\<open>let n = 0; n++;\<close>\<close>

definition nName :: node where
  "nName = Node 164 Identifier 3 5 ''n'' [] []"

definition nInitializer :: node where
  "nInitializer = Node 168 NumericLiteral 7 9 ''0'' [] []"

definition nDeclaration :: node where
  "nDeclaration =
     Node 163 VariableDeclaration 3 9 ''n = 0'' []
       [(''name'', nName), (''initializer'', nInitializer)]"

definition nList :: node where
  "nList = Node 162 VariableDeclarationList 0 9 ''let n = 0'' [] [(''declarations'', nDeclaration)]"

definition nStatement :: node where
  "nStatement = Node 161 VariableStatement 0 10 ''let n = 0;'' [] [(''declarationList'', nList)]"

definition nRef :: node where
  "nRef = Node 167 Identifier 10 12 ''n'' [] []"

definition nIncrement :: node where
  "nIncrement = Node 166 PostfixUnaryExpression 10 14 ''n++'' [] [(''operand'', nRef)]"

definition nExpression :: node where
  "nExpression = Node 165 ExpressionStatement 10 15 ''n++;'' [] [(''expression'', nIncrement)]"

definition incrementFile :: node where
  "incrementFile =
     Node 160 SourceFile 0 15 ''let n = 0; n++;'' []
       [(''statements'', nStatement), (''statements'', nExpression)]"

definition incrementHost :: host where
  "incrementHost = baseHost
     \<lparr>getSymbolAtLocation :=
        (\<lambda>n. if n = nName \<or> n = nRef then Some (Symbol (Some [nDeclaration])) else None),
      isReassignmentTarget := (\<lambda>n. n = nRef),
      forEachDeclaredVariable := (\<lambda>dl. if dl = nList then [nDeclaration] else [])\<rparr>"

subsection \<open>Scenario A as a file\<close>

definition forEachCall :: node where
  "forEachCall =
     Node 147 CallExpression 28 58 ''list.forEach(v => { x = v; })'' []
       [(''expression'', Node 148 PropertyAccessExpression 28 41 ''list.forEach'' []
           [(''expression'', Node 149 Identifier 28 33 ''list'' [] []),
            (''name'', Node 139 Identifier 34 41 ''forEach'' [] [])]),
        (''arguments'', arrowA)]"

definition outerFile :: node where
  "outerFile =
     Node 140 SourceFile 0 62 ''function outer(){ let x = 1; list.forEach(v => { x = v; }); }'' []
       [(''statements'', Node 141 FunctionDeclaration 0 62
           ''function outer(){ let x = 1; list.forEach(v => { x = v; }); }'' []
           [(''name'', Node 142 Identifier 8 14 ''outer'' [] []),
            (''body'', Node 143 Block 16 62 ''{ let x = 1; list.forEach(v => { x = v; }); }'' []
               [(''statements'', Node 144 VariableStatement 17 28 ''let x = 1;'' []
                   [(''declarationList'', Node 145 VariableDeclarationList 17 27 ''let x = 1'' []
                       [(''declarations'', xDecl)])]),
                (''statements'', Node 146 ExpressionStatement 28 59
                   ''list.forEach(v => { x = v; });'' [] [(''expression'', forEachCall)])])])]"

definition outerHost :: host where
  "outerHost = hostA
     \<lparr>parent := (\<lambda>n. if n = xRef then xAssignment else if n = arrowA then forEachCall else n)\<rparr>"

section \<open>Properties of the capture-safety classifier\<close>

lemma whileExpression_innermost:
  "innermost p e \<Longrightarrow> whileExpression (expression p) = Inr e"
  by (induction rule: innermost.induct) simp_all

lemma isUnsafeRoot_within:
  assumes "findDeclaration H n = Some d" and "pos cb \<le> pos d" and "pos d < end' cb"
  shows "isUnsafeRoot H w n (Some cb) = Inr None"
  using assms by (simp add: isUnsafeRoot_def isWithinClosure_def)

lemma rootCallback_Cons: "callbackStack w = cb # rest \<Longrightarrow> rootCallback w = Some cb"
  by (simp add: rootCallback_def)

lemma validate_safe: "isUnsafe H w n = Inr None \<Longrightarrow> validate H n w = Inr w"
  by (simp add: validate_def)

text \<open>
  C3.  While the callback stack is not empty, a reference whose resolved declaration
  starts within the span of the first callback of the stack passes the root-safety test
  as safe, whatever the other tests would say; for a bare identifier or \<open>this\<close> (one whose
  parent is not a property access) the classification is this test, so the visit of the
  node reports nothing and leaves the walker as it was.
\<close>

theorem declaration_within_root_callback_is_safe:
  assumes "callbackStack w = cb # rest"
    and "findDeclaration H n = Some d"
    and "pos cb \<le> pos d" and "pos d < end' cb"
  shows "isUnsafeRoot H w n (rootCallback w) = Inr None \<and>
         (\<not> isPropertyAccessExpression (parent H n) \<longrightarrow>
            isUnsafe H w n = Inr None \<and> validate H n w = Inr w)"
proof -
  have "isUnsafeRoot H w n (rootCallback w) = Inr None"
    unfolding rootCallback_Cons [OF assms(1)] using assms(2-4) by (rule isUnsafeRoot_within)
  then show ?thesis
    by (simp add: isUnsafe_def validate_def)
qed

theorem scenario_D_is_safe:
  "callbackStack walkerD = [arrowD] \<and> findDeclaration hostD yRef = Some yDecl \<and>
   pos arrowD \<le> pos yDecl \<and> pos yDecl < end' arrowD \<and>
   isIdentifier yRef \<and> \<not> isPropertyAccessExpression (parent hostD yRef) \<and>
   isUnsafeRoot hostD walkerD yRef (rootCallback walkerD) = Inr None \<and>
   isUnsafe hostD walkerD yRef = Inr None \<and>
   validate hostD yRef walkerD = Inr walkerD"
proof -
  have h: "callbackStack walkerD = arrowD # []" "findDeclaration hostD yRef = Some yDecl"
    "pos arrowD \<le> pos yDecl" "pos yDecl < end' arrowD"
    by (simp_all add: walkerD_def hostD_def baseHost_def arrowD_def yDecl_def)
  have b: "\<not> isPropertyAccessExpression (parent hostD yRef)" "isIdentifier yRef"
    by (simp_all add: hostD_def baseHost_def isPropertyAccessExpression_def yReturn_def
        isIdentifier_def yRef_def)
  show ?thesis
    using declaration_within_root_callback_is_safe [OF h] h b by simp
qed

text \<open>
  C5.  In the classification of a chain, a member whose declaration has the \<open>readonly\<close>
  modifier is safe, and the answer is given before the root of the chain is looked at:
  it is the same for both values of \<open>allowProperties\<close> (and of every other field of the
  walker), and the visit reports nothing.
\<close>

theorem readonly_member_is_safe:
  assumes "isPropertyAccessExpression (parent H n)"
    and "findDeclaration H n = Some d"
    and "hasModifier (modifiers d) ReadonlyKeyword"
  shows "isUnsafe H (w\<lparr>allowProperties := b\<rparr>) n = Inr None \<and>
         validate H n (w\<lparr>allowProperties := b\<rparr>) = Inr (w\<lparr>allowProperties := b\<rparr>)"
  using assms by (simp add: isUnsafe_def validate_def)

theorem scenario_C_is_safe:
  "isPropertyAccessExpression (parent hostC vName) \<and>
   findDeclaration hostC vName = Some vDecl \<and>
   hasModifier (modifiers vDecl) ReadonlyKeyword \<and>
   isUnsafe hostC (walkerC\<lparr>allowProperties := False\<rparr>) vName = Inr None \<and>
   isUnsafe hostC (walkerC\<lparr>allowProperties := True\<rparr>) vName = Inr None \<and>
   validate hostC vName (walkerC\<lparr>allowProperties := False\<rparr>)
     = Inr (walkerC\<lparr>allowProperties := False\<rparr>) \<and>
   validate hostC thisC (walkerC\<lparr>allowProperties := False\<rparr>)
     = Inr (walkerC\<lparr>allowProperties := False\<rparr>)"
proof -
  have receiver: "validate hostC thisC (walkerC\<lparr>allowProperties := False\<rparr>)
     = Inr (walkerC\<lparr>allowProperties := False\<rparr>)"
    by (simp add: validate_def isUnsafe_def isPropertyAccessExpressionLeaf_def hostC_def
        baseHost_def walkerC_def newCallbackScopeWalker_def isPropertyAccessExpression_def
        isIdentifier_def name_def property_def thisV_def thisC_def vName_def)
  have h: "isPropertyAccessExpression (parent hostC vName)"
    "findDeclaration hostC vName = Some vDecl"
    "hasModifier (modifiers vDecl) ReadonlyKeyword"
    by (simp_all add: hostC_def baseHost_def isPropertyAccessExpression_def thisV_def
        vDecl_def hasModifier_def)
  show ?thesis
    using readonly_member_is_safe [OF h, where w = walkerC and b = False]
      readonly_member_is_safe [OF h, where w = walkerC and b = True] h receiver
    by simp
qed

lemma matches_alternatives:
  "ls \<noteq> [] \<Longrightarrow>
   set (matches (alternatives ls) s i) =
     {i + length l | l. l \<in> set ls \<and> take (length l) (drop i s) = l}"
proof (induction ls rule: alternatives.induct)
  case 1
  then show ?case by simp
next
  case (2 l)
  then show ?case by auto
next
  case (3 l v va)
  then show ?case by auto
qed

lemma test_BOL: "RegExp_test (Seq BOL r) s = (matches r s 0 \<noteq> [])"
proof -
  have "list_ex (\<lambda>i. matches (Seq BOL r) s i \<noteq> []) [0..<Suc (length s)]
        = (\<exists>i<Suc (length s). matches (Seq BOL r) s i \<noteq> [])"
    by (auto simp: list_ex_iff)
  also have "\<dots> = (matches r s 0 \<noteq> [])"
    by auto
  finally show ?thesis
    by (simp only: RegExp_test_def)
qed

lemma matches_Seq_EOL:
  "(matches (Seq r EOL) s i \<noteq> []) = (length s \<in> set (matches r s i))"
  by (induction "matches r s i") auto

lemma test_anchored_alternatives:
  assumes "ls \<noteq> []"
  shows "RegExp_test (Seq BOL (Seq (alternatives ls) EOL)) s = (s \<in> set ls)"
proof -
  have "RegExp_test (Seq BOL (Seq (alternatives ls) EOL)) s
        = (length s \<in> set (matches (alternatives ls) s 0))"
    by (simp only: test_BOL matches_Seq_EOL)
  also have "\<dots> = (\<exists>l \<in> set ls. take (length l) s = l \<and> length l = length s)"
    using matches_alternatives [OF assms, of s 0] by auto
  also have "\<dots> = (s \<in> set ls)"
    by (metis order_refl take_all)
  finally show ?thesis .
qed

lemma knownGlobalRegExp_test:
  "RegExp_test knownGlobalRegExp t =
     (t \<in> {''Array'', ''BigInt'', ''Date'', ''Intl'', ''JSON'', ''Math'', ''Number'', ''Object'',
           ''Promise'', ''Proxy'', ''Reflect'', ''String'', ''Symbol'', ''console''})"
  unfolding knownGlobalRegExp_def
  by (subst test_anchored_alternatives) simp_all

lemma upperCaseRegExp_test:
  "RegExp_test upperCaseRegExp s =
     (s \<noteq> [] \<and> 65 \<le> (of_char (hd s) :: nat) \<and> (of_char (hd s) :: nat) \<le> 90)"
  by (cases s) (simp_all add: upperCaseRegExp_def test_BOL)

lemma isUnsafeRoot_node: "isUnsafeRoot H w n callback = Inr (Some f) \<Longrightarrow> f = n"
  by (auto simp: isUnsafeRoot_def split: if_splits option.splits sum.splits)

text \<open>
  C6.  For a node whose parent is a property access: unless the node is the name of that
  property access and the property access is not itself inside another one, the node is
  skipped (safe, nothing reported); the leaf of a property access is unique; one visit
  adds at most one failure; and at the leaf the chain is classified: when the member
  has a declaration that is neither \<open>readonly\<close> nor of an enumeration literal and the
  chain has a root, the answer is the one for the root (the gating by \<open>allowMethods\<close> or
  \<open>allowProperties\<close> for \<open>this\<close> and for a capitalised name that is not a known global,
  safe for a known global, the root-safety test of the root otherwise), and a node to
  report is the root.  So of the nodes of a chain the name of its outermost property
  access, and no other, is classified, and the chain yields at most one violation.
\<close>

theorem chain_classified_at_leaf_only:
  assumes "isPropertyAccessExpression (parent H n)"
  shows "(\<not> (Some n = name (parent H n) \<and>
             \<not> isPropertyAccessExpression (parent H (parent H n))) \<longrightarrow>
            isUnsafe H w n = Inr None \<and> validate H n w = Inr w) \<and>
         (\<forall>m. isPropertyAccessExpressionLeaf H n \<and> isPropertyAccessExpressionLeaf H m \<and>
              parent H m = parent H n \<longrightarrow> m = n) \<and>
         (\<forall>w'. validate H n w = Inr w' \<longrightarrow> length (failures w') \<le> Suc (length (failures w))) \<and>
         (\<forall>d root. Some n = name (parent H n) \<and>
              \<not> isPropertyAccessExpression (parent H (parent H n)) \<and>
              findDeclaration H n = Some d \<and>
              \<not> hasModifier (modifiers d) ReadonlyKeyword \<and>
              \<not> isTypeFlagSet (getTypeAtLocation H n) EnumLiteral \<and>
              getPropertyAccessExpressionRoot H (parent H n) = Inr (Some root) \<longrightarrow>
            isUnsafe H w n =
              (if isThis H root \<or>
                  (\<not> RegExp_test knownGlobalRegExp (getText root) \<and>
                   RegExp_test upperCaseRegExp (getText root))
               then Inr (if (if isWithinCallExpressionExpression H n then allowMethods w
                             else allowProperties w)
                         then None else Some root)
               else if RegExp_test knownGlobalRegExp (getText root) then Inr None
               else isUnsafeRoot H w root (rootCallback w)) \<and>
            (\<forall>f. isUnsafe H w n = Inr (Some f) \<longrightarrow> f = root))"
proof (intro conjI impI allI)
  assume "\<not> (Some n = name (parent H n) \<and>
    \<not> isPropertyAccessExpression (parent H (parent H n)))"
  then have "\<not> isPropertyAccessExpressionLeaf H n"
    using assms by (auto simp: isPropertyAccessExpressionLeaf_def Let_def)
  then show "isUnsafe H w n = Inr None"
    using assms by (simp add: isUnsafe_def)
  then show "validate H n w = Inr w"
    by (rule validate_safe)
next
  fix m
  assume "isPropertyAccessExpressionLeaf H n \<and> isPropertyAccessExpressionLeaf H m \<and>
    parent H m = parent H n"
  then have "Some n = name (parent H n)" and "Some m = name (parent H n)"
    by (auto simp: isPropertyAccessExpressionLeaf_def Let_def split: if_splits)
  then show "m = n"
    by (metis option.inject)
next
  fix w'
  assume "validate H n w = Inr w'"
  then show "length (failures w') \<le> Suc (length (failures w))"
    by (auto simp: validate_def addFailureAtNode_def Let_def
        split: if_splits sum.splits option.splits)
next
  fix d root
  assume a: "Some n = name (parent H n) \<and>
    \<not> isPropertyAccessExpression (parent H (parent H n)) \<and>
    findDeclaration H n = Some d \<and>
    \<not> hasModifier (modifiers d) ReadonlyKeyword \<and>
    \<not> isTypeFlagSet (getTypeAtLocation H n) EnumLiteral \<and>
    getPropertyAccessExpressionRoot H (parent H n) = Inr (Some root)"
  then have leaf: "isPropertyAccessExpressionLeaf H n"
    using assms by (simp add: isPropertyAccessExpressionLeaf_def Let_def)
  show classified: "isUnsafe H w n =
      (if isThis H root \<or>
          (\<not> RegExp_test knownGlobalRegExp (getText root) \<and>
           RegExp_test upperCaseRegExp (getText root))
       then Inr (if (if isWithinCallExpressionExpression H n then allowMethods w
                     else allowProperties w)
                 then None else Some root)
       else if RegExp_test knownGlobalRegExp (getText root) then Inr None
       else isUnsafeRoot H w root (rootCallback w))"
    using assms leaf a by (simp add: isUnsafe_def Let_def)
  fix f
  assume "isUnsafe H w n = Inr (Some f)"
  then show "f = root"
    unfolding classified by (auto split: if_splits dest: isUnsafeRoot_node)
qed

theorem chain_a_b_c_inner_nodes_skipped:
  "isPropertyAccessExpression (parent hostABC bId) \<and>
   isPropertyAccessExpression (parent hostABC (parent hostABC bId)) \<and>
   isUnsafe hostABC walkerABC bId = Inr None \<and>
   validate hostABC bId walkerABC = Inr walkerABC \<and>
   isPropertyAccessExpression (parent hostABC aId) \<and>
   Some aId \<noteq> name (parent hostABC aId) \<and>
   isUnsafe hostABC walkerABC aId = Inr None \<and>
   validate hostABC aId walkerABC = Inr walkerABC \<and>
   isPropertyAccessExpressionLeaf hostABC cId \<and>
   getPropertyAccessExpressionRoot hostABC (parent hostABC cId) = Inr (Some aId) \<and>
   isUnsafe hostABC walkerABC cId = isUnsafeRoot hostABC walkerABC aId (rootCallback walkerABC) \<and>
   isUnsafe hostABC walkerABC cId = Inr (Some aId) \<and>
   validate hostABC cId walkerABC = Inr (walkerABC\<lparr>failures := [aId]\<rparr>)"
proof -
  have pb: "isPropertyAccessExpression (parent hostABC bId)"
    and pa: "isPropertyAccessExpression (parent hostABC aId)"
    and pc: "isPropertyAccessExpression (parent hostABC cId)"
    by (simp_all add: hostABC_def baseHost_def isPropertyAccessExpression_def aDotB_def
        aDotBDotC_def aId_def bId_def cId_def)
  have ppb: "isPropertyAccessExpression (parent hostABC (parent hostABC bId))"
    by (simp add: hostABC_def baseHost_def isPropertyAccessExpression_def aDotB_def
        aDotBDotC_def aId_def bId_def cId_def)
  have na: "Some aId \<noteq> name (parent hostABC aId)"
    by (simp add: hostABC_def baseHost_def name_def property_def aDotB_def aId_def bId_def)
  have leaf: "isPropertyAccessExpressionLeaf hostABC cId"
    by (simp add: isPropertyAccessExpressionLeaf_def hostABC_def baseHost_def
        isPropertyAccessExpression_def name_def property_def aDotB_def aDotBDotC_def
        arrowABC_def aId_def bId_def cId_def)
  have root: "getPropertyAccessExpressionRoot hostABC (parent hostABC cId) = Inr (Some aId)"
    by (simp add: getPropertyAccessExpressionRoot_def hostABC_def baseHost_def expression_def
        property_def isPropertyAccessExpression_def isIdentifier_def aDotB_def aDotBDotC_def
        aId_def bId_def cId_def)
  have c: "Some cId = name (parent hostABC cId) \<and>
      \<not> isPropertyAccessExpression (parent hostABC (parent hostABC cId)) \<and>
      findDeclaration hostABC cId = Some (Node 36 VariableDeclaration 3 8 ''a = o'' [] []) \<and>
      \<not> hasModifier (modifiers (Node 36 VariableDeclaration 3 8 ''a = o'' [] [])) ReadonlyKeyword \<and>
      \<not> isTypeFlagSet (getTypeAtLocation hostABC cId) EnumLiteral"
    by (simp add: hostABC_def baseHost_def name_def property_def isPropertyAccessExpression_def
        hasModifier_def isTypeFlagSet_def aDotB_def aDotBDotC_def arrowABC_def aId_def bId_def
        cId_def)
  have plain: "\<not> isThis hostABC aId" "\<not> RegExp_test knownGlobalRegExp (getText aId)"
    "\<not> RegExp_test upperCaseRegExp (getText aId)"
    by (simp_all add: hostABC_def baseHost_def aId_def knownGlobalRegExp_test
        upperCaseRegExp_test)
  have unsafeRoot: "isUnsafeRoot hostABC walkerABC aId (rootCallback walkerABC) = Inr (Some aId)"
    by (simp add: isUnsafeRoot_def isWithinClosure_def rootCallback_def walkerABC_def
        newCallbackScopeWalker_def hostABC_def baseHost_def isQualifiedName_def
        isCallExpression_def isTaggedTemplateExpression_def isNewExpression_def
        isTypeReferenceNode_def isImportSpecifier_def isNamespaceImport_def aDotB_def
        arrowABC_def aId_def bId_def)
  have classified: "isUnsafe hostABC walkerABC cId
      = isUnsafeRoot hostABC walkerABC aId (rootCallback walkerABC)"
    using chain_classified_at_leaf_only [OF pc, where w = walkerABC] c root plain by simp
  have reported: "validate hostABC cId walkerABC = Inr (walkerABC\<lparr>failures := [aId]\<rparr>)"
    using classified unsafeRoot
    by (simp add: validate_def addFailureAtNode_def walkerABC_def newCallbackScopeWalker_def
        isIdentifier_def cId_def)
  show ?thesis
    using chain_classified_at_leaf_only [OF pb, where w = walkerABC]
      chain_classified_at_leaf_only [OF pa, where w = walkerABC] pa pb ppb na leaf root
      classified unsafeRoot reported
    by simp
qed

lemma isUnsafe_known_global:
  assumes "isPropertyAccessExpression (parent H n)"
    and "getPropertyAccessExpressionRoot H (parent H n) = Inr (Some root)"
    and "\<not> isThis H root"
    and "RegExp_test knownGlobalRegExp (getText root)"
  shows "isUnsafe H w n = Inr None"
proof (cases "findDeclaration H n")
  case None
  then show ?thesis using assms(1) by (simp add: isUnsafe_def)
next
  case (Some d)
  then show ?thesis using assms by (simp add: isUnsafe_def)
qed

text \<open>
  C9.  The regular expression of the ambient globals is a constant of the rule (no option
  reaches it) and matches a text exactly when the whole text is one of the fourteen
  names; a chain whose root identifier has such a text is safe.
\<close>

theorem known_globals_allow_list:
  "(RegExp_test knownGlobalRegExp s =
     (s \<in> {''Array'', ''BigInt'', ''Date'', ''Intl'', ''JSON'', ''Math'', ''Number'', ''Object'',
           ''Promise'', ''Proxy'', ''Reflect'', ''String'', ''Symbol'', ''console''})) \<and>
   (isPropertyAccessExpression (parent H n) \<and>
    getPropertyAccessExpressionRoot H (parent H n) = Inr (Some root) \<and>
    \<not> isThis H root \<and>
    getText root \<in> {''Array'', ''BigInt'', ''Date'', ''Intl'', ''JSON'', ''Math'', ''Number'',
           ''Object'', ''Promise'', ''Proxy'', ''Reflect'', ''String'', ''Symbol'', ''console''}
    \<longrightarrow> isUnsafe H w n = Inr None)"
proof (intro conjI impI)
  show "RegExp_test knownGlobalRegExp s =
     (s \<in> {''Array'', ''BigInt'', ''Date'', ''Intl'', ''JSON'', ''Math'', ''Number'', ''Object'',
           ''Promise'', ''Proxy'', ''Reflect'', ''String'', ''Symbol'', ''console''})"
    by (rule knownGlobalRegExp_test)
next
  assume a: "isPropertyAccessExpression (parent H n) \<and>
    getPropertyAccessExpressionRoot H (parent H n) = Inr (Some root) \<and>
    \<not> isThis H root \<and>
    getText root \<in> {''Array'', ''BigInt'', ''Date'', ''Intl'', ''JSON'', ''Math'', ''Number'',
           ''Object'', ''Promise'', ''Proxy'', ''Reflect'', ''String'', ''Symbol'', ''console''}"
  then have "RegExp_test knownGlobalRegExp (getText root)"
    by (simp only: knownGlobalRegExp_test)
  with a show "isUnsafe H w n = Inr None"
    by (intro isUnsafe_known_global [of H n root]) simp_all
qed

theorem console_log_is_safe:
  "RegExp_test knownGlobalRegExp ''console'' \<and>
   \<not> RegExp_test knownGlobalRegExp ''consoles'' \<and>
   \<not> RegExp_test knownGlobalRegExp ''myArray'' \<and>
   \<not> RegExp_test knownGlobalRegExp ''Array.prototype'' \<and>
   getPropertyAccessExpressionRoot hostLog (parent hostLog logId) = Inr (Some consoleId) \<and>
   isUnsafe hostLog walkerLog logId = Inr None"
proof -
  have r: "getPropertyAccessExpressionRoot hostLog (parent hostLog logId) = Inr (Some consoleId)"
    by (simp add: getPropertyAccessExpressionRoot_def hostLog_def baseHost_def consoleLog_def
        consoleId_def logId_def expression_def property_def isPropertyAccessExpression_def
        isIdentifier_def)
  have p: "isPropertyAccessExpression (parent hostLog logId)"
    by (simp add: hostLog_def baseHost_def consoleLog_def isPropertyAccessExpression_def)
  have t: "\<not> isThis hostLog consoleId" "getText consoleId = ''console''"
    by (simp_all add: hostLog_def baseHost_def consoleId_def)
  have "isUnsafe hostLog walkerLog logId = Inr None"
    using known_globals_allow_list [of "''console''" hostLog logId consoleId walkerLog] p r t
    by simp
  moreover have "RegExp_test knownGlobalRegExp ''console''"
    "\<not> RegExp_test knownGlobalRegExp ''consoles''"
    "\<not> RegExp_test knownGlobalRegExp ''myArray''"
    "\<not> RegExp_test knownGlobalRegExp ''Array.prototype''"
    using known_globals_allow_list [of "''console''" hostLog logId consoleId walkerLog]
      known_globals_allow_list [of "''consoles''" hostLog logId consoleId walkerLog]
      known_globals_allow_list [of "''myArray''" hostLog logId consoleId walkerLog]
      known_globals_allow_list [of "''Array.prototype''" hostLog logId consoleId walkerLog]
    by simp_all
  ultimately show ?thesis
    using r by simp
qed

text \<open>
  C10.  When the innermost expression of the chain a node belongs to is neither \<open>this\<close>
  nor an identifier, \<open>getPropertyAccessExpressionRoot\<close> returns \<open>undefined\<close>, the node is
  safe and its visit reports nothing.
\<close>

theorem chain_without_root_is_safe:
  assumes "isPropertyAccessExpression (parent H n)"
    and "innermost (parent H n) e"
    and "\<not> isThis H e" and "\<not> isIdentifier e"
  shows "getPropertyAccessExpressionRoot H (parent H n) = Inr None \<and>
         isUnsafe H w n = Inr None \<and> validate H n w = Inr w"
proof -
  have r: "getPropertyAccessExpressionRoot H (parent H n) = Inr None"
    using whileExpression_innermost [OF assms(2)] assms(3,4)
    by (simp add: getPropertyAccessExpressionRoot_def)
  then have "isUnsafe H w n = Inr None"
    using assms(1) by (simp add: isUnsafe_def split: option.splits)
  then show ?thesis
    using r by (simp add: validate_def)
qed

theorem call_result_chain_is_safe:
  "isPropertyAccessExpression (parent hostMake sizeId) \<and>
   innermost (parent hostMake sizeId) makeCall \<and>
   \<not> isThis hostMake makeCall \<and> \<not> isIdentifier makeCall \<and>
   isPropertyAccessExpressionLeaf hostMake sizeId \<and>
   getPropertyAccessExpressionRoot hostMake (parent hostMake sizeId) = Inr None \<and>
   isUnsafe hostMake walkerMake sizeId = Inr None \<and>
   validate hostMake sizeId walkerMake = Inr walkerMake"
proof -
  have p: "isPropertyAccessExpression (parent hostMake sizeId)"
    by (simp add: hostMake_def baseHost_def makeSize_def isPropertyAccessExpression_def)
  have "innermost makeSize makeCall"
    by (rule innermost_here)
      (simp_all add: makeSize_def makeCall_def expression_def property_def
        isPropertyAccessExpression_def)
  then have i: "innermost (parent hostMake sizeId) makeCall"
    by (simp add: hostMake_def baseHost_def)
  have t: "\<not> isThis hostMake makeCall" "\<not> isIdentifier makeCall"
    by (simp_all add: hostMake_def baseHost_def makeCall_def isIdentifier_def)
  have leaf: "isPropertyAccessExpressionLeaf hostMake sizeId"
    by (simp add: isPropertyAccessExpressionLeaf_def hostMake_def baseHost_def
        isPropertyAccessExpression_def name_def property_def makeSize_def makeCall_def
        sizeId_def arrowMake_def)
  show ?thesis
    using chain_without_root_is_safe [OF p i t, where w = walkerMake] p i t leaf by simp
qed

text \<open>
  C4, as the claim states it, fails: the root-safety test exempts every child of a
  qualified name, not only its left segment.  In
  \<^verbatim>\<open>let v = { a: 1 }; list.forEach(() => { let w: typeof v.a; });\<close> the identifier \<open>a\<close>
  of \<open>v.a\<close> resolves to a declaration outside the callback that is neither constant, nor
  an import, nor a parameter, and it is in none of the positions the claim lists; it is
  classified safe and nothing is reported.
\<close>

theorem qualified_name_right_segment_not_reported:
  "callbackStack walkerQ = [arrowQ] \<and> isIdentifier qRight \<and>
   \<not> isPropertyAccessExpression (parent hostQ qRight) \<and>
   findDeclaration hostQ qRight = Some aProperty \<and>
   pos aProperty < pos arrowQ \<and>
   \<not> isConstDeclaration hostQ aProperty \<and>
   \<not> isImportSpecifier aProperty \<and> \<not> isNamespaceImport aProperty \<and>
   \<not> isWithinParameterDeclaration hostQ aProperty \<and>
   isQualifiedName (parent hostQ qRight) \<and>
   property ''left'' (parent hostQ qRight) = Some qLeft \<and> qRight \<noteq> qLeft \<and>
   \<not> isInstanceofCtor hostQ qRight \<and>
   \<not> isCallExpression (parent hostQ qRight) \<and>
   \<not> isTaggedTemplateExpression (parent hostQ qRight) \<and>
   \<not> isNewExpression (parent hostQ qRight) \<and>
   \<not> isTypeReferenceNode (parent hostQ qRight) \<and>
   isUnsafeRoot hostQ walkerQ qRight (rootCallback walkerQ) = Inr None \<and>
   isUnsafe hostQ walkerQ qRight = Inr None \<and>
   validate hostQ qRight walkerQ = Inr walkerQ \<and>
   failures walkerQ = []"
  by (simp add: walkerQ_def newCallbackScopeWalker_def hostQ_def baseHost_def qRight_def
      qLeft_def qName_def aProperty_def arrowQ_def isIdentifier_def
      isPropertyAccessExpression_def isImportSpecifier_def isNamespaceImport_def
      isQualifiedName_def isCallExpression_def isTaggedTemplateExpression_def
      isNewExpression_def isTypeReferenceNode_def property_def rootCallback_def
      isUnsafeRoot_def isUnsafe_def validate_def)

text \<open>
  C4, amended.  Inside a callback, an identifier whose parent is not a property access,
  that resolves to a declaration outside the span of the first callback of the stack
  which is neither constant, nor an import specifier or namespace import, nor (when
  \<open>allowParameters\<close> is set) a parameter, and that is not a child of a qualified name,
  not a constructor in an \<open>instanceof\<close> test, not the callee of a call, not the tag of a
  tagged template, not a child of a \<open>new\<close> expression and not the name of a type
  reference, falls through every safe branch of the root-safety test: the visit reports
  exactly one failure, at that node, before the base walker goes on.
\<close>

theorem outer_mutable_capture_reported:
  assumes "callbackStack w = cb # rest"
    and "isIdentifier n"
    and "\<not> isPropertyAccessExpression (parent H n)"
    and "findDeclaration H n = Some d"
    and "pos d < pos cb \<or> end' cb \<le> pos d"
    and "\<not> isConstDeclaration H d"
    and "\<not> isImportSpecifier d" and "\<not> isNamespaceImport d"
    and "\<not> (allowParameters w \<and> isWithinParameterDeclaration H d)"
    and "\<not> isQualifiedName (parent H n)"
    and "\<not> isInstanceofCtor H n"
    and "\<not> (isCallExpression (parent H n) \<and> Some n = expression (parent H n))"
    and "\<not> (isTaggedTemplateExpression (parent H n) \<and> Some n = tag (parent H n))"
    and "\<not> isNewExpression (parent H n)"
    and "\<not> isTypeReferenceNode (parent H n)"
  shows "isUnsafeRoot H w n (rootCallback w) = Inr (Some n) \<and>
         isUnsafe H w n = Inr (Some n) \<and>
         validate H n w = Inr (w\<lparr>failures := failures w @ [n]\<rparr>) \<and>
         CallbackScope_visitNode H super n w = super n (w\<lparr>failures := failures w @ [n]\<rparr>)"
proof -
  have within: "isWithinClosure d (Some cb) = Inr False"
    using assms(5) by (auto simp: isWithinClosure_def)
  have root: "isUnsafeRoot H w n (rootCallback w) = Inr (Some n)"
    unfolding rootCallback_Cons [OF assms(1)] isUnsafeRoot_def
    using assms(4,6-15) within by auto
  then have unsafe: "isUnsafe H w n = Inr (Some n)"
    using assms(3) by (simp add: isUnsafe_def)
  have "validate H n w = Inr (w\<lparr>failures := failures w @ [n]\<rparr>)"
    using assms(1,2) unsafe by (simp add: validate_def addFailureAtNode_def)
  then show ?thesis
    using root unsafe by (simp add: CallbackScope_visitNode_def)
qed

theorem scenario_A_reported_once:
  "callbackStack walkerA = [arrowA] \<and> isIdentifier xRef \<and>
   findDeclaration hostA xRef = Some xDecl \<and> pos xDecl < pos arrowA \<and>
   isUnsafeRoot hostA walkerA xRef (rootCallback walkerA) = Inr (Some xRef) \<and>
   isUnsafe hostA walkerA xRef = Inr (Some xRef) \<and>
   validate hostA xRef walkerA = Inr (walkerA\<lparr>failures := [xRef]\<rparr>) \<and>
   CallbackScope_visitNode hostA (\<lambda>n w. Inr w) xRef walkerA
     = Inr (walkerA\<lparr>failures := [xRef]\<rparr>)"
proof -
  have h: "callbackStack walkerA = arrowA # []" "isIdentifier xRef"
    "\<not> isPropertyAccessExpression (parent hostA xRef)"
    "findDeclaration hostA xRef = Some xDecl"
    "pos xDecl < pos arrowA \<or> end' arrowA \<le> pos xDecl"
    "\<not> isConstDeclaration hostA xDecl"
    "\<not> isImportSpecifier xDecl" "\<not> isNamespaceImport xDecl"
    "\<not> (allowParameters walkerA \<and> isWithinParameterDeclaration hostA xDecl)"
    "\<not> isQualifiedName (parent hostA xRef)"
    "\<not> isInstanceofCtor hostA xRef"
    "\<not> (isCallExpression (parent hostA xRef) \<and> Some xRef = expression (parent hostA xRef))"
    "\<not> (isTaggedTemplateExpression (parent hostA xRef) \<and> Some xRef = tag (parent hostA xRef))"
    "\<not> isNewExpression (parent hostA xRef)"
    "\<not> isTypeReferenceNode (parent hostA xRef)"
    by (simp_all add: walkerA_def newCallbackScopeWalker_def hostA_def baseHost_def xRef_def
        xAssignment_def xDecl_def arrowA_def isIdentifier_def isPropertyAccessExpression_def
        isImportSpecifier_def isNamespaceImport_def isQualifiedName_def isCallExpression_def
        isTaggedTemplateExpression_def isNewExpression_def isTypeReferenceNode_def)
  have f: "failures walkerA = []" "pos xDecl < pos arrowA"
    by (simp_all add: walkerA_def newCallbackScopeWalker_def xDecl_def arrowA_def)
  show ?thesis
    using outer_mutable_capture_reported [OF h, where super = "\<lambda>n w. Inr w"] h(1,2,4) f
    by simp
qed

text \<open>
  The test for constructor calls in \<open>isUnsafeRoot\<close> does not compare the node with the
  expression of its parent, as the tests for calls and tagged templates do: an argument
  of a \<open>new\<close> expression that captures a variable of the outer scope is classified safe.
\<close>

lemma new_expression_argument_not_reported:
  "callbackStack walkerN = [arrowN] \<and> isIdentifier newArgument \<and>
   isNewExpression (parent hostN newArgument) \<and>
   expression (parent hostN newArgument) = Some newTarget \<and> newArgument \<noteq> newTarget \<and>
   findDeclaration hostN newArgument = Some xDeclN \<and> pos xDeclN < pos arrowN \<and>
   \<not> isConstDeclaration hostN xDeclN \<and>
   isUnsafe hostN walkerN newArgument = Inr None \<and>
   validate hostN newArgument walkerN = Inr walkerN"
  by (simp add: walkerN_def newCallbackScopeWalker_def hostN_def baseHost_def newArgument_def
      newTarget_def newFoo_def xDeclN_def arrowN_def isIdentifier_def
      isPropertyAccessExpression_def isImportSpecifier_def isNamespaceImport_def
      isQualifiedName_def isCallExpression_def isTaggedTemplateExpression_def
      isNewExpression_def isTypeReferenceNode_def expression_def property_def rootCallback_def
      isWithinClosure_def isUnsafeRoot_def isUnsafe_def validate_def)

section \<open>Properties of the unused-declaration tracker\<close>

text \<open>
  The registry under \<open>Map_set\<close>, and what marking, declaring and importing do to the
  entry of a key.
\<close>

lemma map_of_Map_set: "map_of (Map_set m k v) k' = (if k' = k then Some v else map_of m k')"
  by (induction m) auto

lemma Map_has_Nil: "Map_has [] k = False"
  by (simp add: Map_has_def)

lemma Map_has_Cons: "Map_has ((k', v) # m) k = (k' = k \<or> Map_has m k)"
  by (auto simp: Map_has_def)

lemma has_Map_set: "Map_has (Map_set m k v) k' = (k' = k \<or> Map_has m k')"
  by (simp add: Map_has_def map_of_Map_set)

lemma has_look: "Map_has (identifiers w) key = (look w key \<noteq> None)"
  by (simp add: Map_has_def)

lemma look_Some_has: "look w key = Some b \<Longrightarrow> Map_has (identifiers w) key"
  by (simp add: Map_has_def)

lemma not_has_look: "\<not> Map_has (identifiers w) key \<Longrightarrow> look w key = None"
  by (simp add: Map_has_def)

lemma keys_Map_set:
  "map fst (Map_set m k v) = (if k \<in> set (map fst m) then map fst m else map fst m @ [k])"
  by (induction m) auto

lemma distinct_Map_set: "distinct (map fst m) \<Longrightarrow> distinct (map fst (Map_set m k v))"
  by (simp add: keys_Map_set)

lemma markDeclaration_look:
  "look (markDeclaration d w) key =
     (if key = getIdentifier d \<and> Map_has (identifiers w) key then Some True else look w key)"
  by (auto simp: markDeclaration_def Let_def map_of_Map_set)

lemma markDeclaration_has:
  "Map_has (identifiers (markDeclaration d w)) key = Map_has (identifiers w) key"
  by (auto simp: markDeclaration_def Let_def has_Map_set)

lemma markDeclaration_frame:
  "failures (markDeclaration d w) = failures w"
  "distinct (map fst (identifiers w)) \<Longrightarrow> distinct (map fst (identifiers (markDeclaration d w)))"
  by (simp_all add: markDeclaration_def Let_def distinct_Map_set)

lemma fold_markDeclaration_has:
  "Map_has (identifiers (fold markDeclaration ds w)) key = Map_has (identifiers w) key"
  by (induction ds arbitrary: w) (simp_all add: markDeclaration_has)

lemma fold_markDeclaration_look:
  "look (fold markDeclaration ds w) key =
     (if key \<in> getIdentifier ` set ds \<and> Map_has (identifiers w) key then Some True
      else look w key)"
  by (induction ds arbitrary: w) (auto simp: markDeclaration_look markDeclaration_has)

lemma fold_markDeclaration_frame:
  "failures (fold markDeclaration ds w) = failures w"
  "distinct (map fst (identifiers w)) \<Longrightarrow>
     distinct (map fst (identifiers (fold markDeclaration ds w)))"
  by (induction ds arbitrary: w) (simp_all add: markDeclaration_frame)

lemma fold_declareVariable_look:
  "look (fold declareVariable vs w) key =
     (if key \<in> name ` set vs then Some False else look w key)"
  by (induction vs arbitrary: w) (auto simp: declareVariable_def map_of_Map_set)

lemma fold_declareVariable_has:
  "Map_has (identifiers (fold declareVariable vs w)) key =
     (key \<in> name ` set vs \<or> Map_has (identifiers w) key)"
  by (induction vs arbitrary: w) (auto simp: declareVariable_def has_Map_set)

lemma fold_declareVariable_frame:
  "failures (fold declareVariable vs w) = failures w"
  "distinct (map fst (identifiers w)) \<Longrightarrow>
     distinct (map fst (identifiers (fold declareVariable vs w)))"
  by (induction vs arbitrary: w) (simp_all add: declareVariable_def distinct_Map_set)

lemma importElement_look:
  "look (importElement e w) key =
     (if key = name e then Some False
      else if propertyName e \<noteq> None \<and> key = propertyName e then Some True
      else look w key)"
  by (simp add: importElement_def Let_def map_of_Map_set)

lemma importElement_has:
  "Map_has (identifiers (importElement e w)) key =
     (key = name e \<or> (propertyName e \<noteq> None \<and> key = propertyName e) \<or>
      Map_has (identifiers w) key)"
  by (auto simp: importElement_def Let_def has_Map_set)

lemma importElement_frame:
  "failures (importElement e w) = failures w"
  "distinct (map fst (identifiers w)) \<Longrightarrow> distinct (map fst (identifiers (importElement e w)))"
  by (simp_all add: importElement_def Let_def distinct_Map_set)

lemma fold_importElement_frame:
  "failures (fold importElement es w) = failures w"
  "distinct (map fst (identifiers w)) \<Longrightarrow>
     distinct (map fst (identifiers (fold importElement es w)))"
  by (induction es arbitrary: w) (simp_all add: importElement_frame)

lemma fold_importElement_has_old:
  "Map_has (identifiers w) key \<Longrightarrow> Map_has (identifiers (fold importElement es w)) key"
  by (induction es arbitrary: w) (simp_all add: importElement_has)

lemma fold_importElement_has_new:
  "key \<in> name ` set es \<Longrightarrow> Map_has (identifiers (fold importElement es w)) key"
  by (induction es arbitrary: w) (auto simp: importElement_has fold_importElement_has_old)

lemma fold_importElement_unmarked:
  "key \<notin> set (filter (\<lambda>k. k \<noteq> None) (map propertyName es)) \<Longrightarrow> look w key \<noteq> Some True \<Longrightarrow>
   look (fold importElement es w) key \<noteq> Some True"
  by (induction es arbitrary: w) (auto simp: importElement_look split: if_splits)

lemma fold_importElement_marked:
  "key \<notin> name ` set es \<Longrightarrow> look w key = Some True \<Longrightarrow>
   look (fold importElement es w) key = Some True"
  by (induction es arbitrary: w) (auto simp: importElement_look)


text \<open>
  One visit: which entries it adds (\<open>declaredNames\<close>), keeps, and sets to used.
\<close>

lemmas visit_defs = visitKind_def visitClassDeclaration_def visitEnumDeclaration_def
  visitFunctionDeclaration_def visitIdentifier_def visitNamedImports_def
  visitNamespaceImport_def visitVariableStatement_def

lemma visitKind_frame:
  assumes "visitKind H n w = Inr w'"
  shows "failures w' = failures w"
    and "distinct (map fst (identifiers w)) \<Longrightarrow> distinct (map fst (identifiers w'))"
  using assms
  by (auto simp: visit_defs Let_def distinct_Map_set fold_markDeclaration_frame
      fold_declareVariable_frame fold_importElement_frame
      split: if_splits option.splits)

lemma visitKind_has_old:
  assumes "visitKind H n w = Inr w'" and "Map_has (identifiers w) key"
  shows "Map_has (identifiers w') key"
  using assms
  by (auto simp: visit_defs Let_def has_Map_set fold_markDeclaration_has
      fold_declareVariable_has fold_importElement_has_old
      split: if_splits option.splits)

lemma visitKind_has_new:
  assumes "visitKind H n w = Inr w'" and "key \<in> set (declaredNames H n)"
  shows "Map_has (identifiers w') key"
  using assms
  by (auto simp: visit_defs declaredNames_def Let_def has_Map_set
      fold_declareVariable_has fold_importElement_has_new
      split: if_splits option.splits)

lemma visitKind_registers:
  assumes "visitKind H n w = Inr w'"
    and "key \<in> set (declaredNames H n)" and "kind n \<noteq> NamedImports"
  shows "look w' key = Some False"
  using assms
  by (auto simp: visit_defs declaredNames_def map_of_Map_set fold_declareVariable_look
      split: if_splits option.splits)

lemma visitIdentifier_unmarked:
  assumes "visitIdentifier H n w = Inr w'"
    and "kind n = Identifier"
    and "key = Some n \<or> key \<notin> set (referencedNames H n)"
    and "look w key \<noteq> Some True"
  shows "look w' key \<noteq> Some True"
proof (cases "\<not> Map_has (identifiers w) (Some n) \<and> \<not> isReassignmentTarget H n")
  case False
  then have "w' = w"
    using assms(1) by (auto simp: visitIdentifier_def Let_def)
  then show ?thesis using assms(4) by simp
next
  case True
  then obtain s ds where s: "getSymbolAtLocation H n = Some s" "getDeclarations s = Some ds"
    and w': "w' = fold markDeclaration ds w"
    using assms(1) by (auto simp: visitIdentifier_def Let_def split: option.splits)
  show ?thesis
  proof (cases "key = Some n")
    case True
    then have "\<not> Map_has (identifiers w) key"
      using \<open>\<not> Map_has (identifiers w) (Some n) \<and> \<not> isReassignmentTarget H n\<close> by simp
    then show ?thesis
      using assms(4) by (simp add: w' fold_markDeclaration_look)
  next
    case False
    then have "key \<notin> getIdentifier ` set ds"
      using assms(2,3) True s by (simp add: referencedNames_def)
    then show ?thesis
      using assms(4) by (simp add: w' fold_markDeclaration_look)
  qed
qed

lemma visitKind_unmarked:
  assumes "visitKind H n w = Inr w'"
    and "key = Some n \<or> key \<notin> set (referencedNames H n)"
    and "key \<notin> set (renamedNames n)"
    and "look w key \<noteq> Some True"
  shows "look w' key \<noteq> Some True"
proof (cases "kind n = Identifier")
  case True
  then show ?thesis
    using assms visitIdentifier_unmarked [of H n w w' key] by (simp add: visitKind_def)
next
  case False
  then show ?thesis
    using assms(1,3,4) fold_importElement_unmarked [of key "elements n" w]
    by (auto simp: visitKind_def visitClassDeclaration_def visitEnumDeclaration_def
        visitFunctionDeclaration_def visitNamedImports_def visitNamespaceImport_def
        visitVariableStatement_def renamedNames_def map_of_Map_set fold_declareVariable_look
        split: if_splits option.splits)
qed

lemma visitKind_marked:
  assumes "visitKind H n w = Inr w'"
    and "key \<notin> set (declaredNames H n)"
    and "look w key = Some True"
  shows "look w' key = Some True"
  using assms
  by (auto simp: visit_defs declaredNames_def Let_def map_of_Map_set
      fold_markDeclaration_look fold_declareVariable_look fold_importElement_marked
      split: if_splits option.splits)



lemma visitIdentifier_marks:
  assumes "kind n = Identifier"
    and "\<not> Map_has (identifiers w) (Some n)"
    and "\<not> isReassignmentTarget H n"
    and "getSymbolAtLocation H n = Some s" and "getDeclarations s = Some ds"
    and "d \<in> set ds" and "getIdentifier d = key"
    and "Map_has (identifiers w) key"
  shows "\<exists>w'. visitKind H n w = Inr w' \<and> look w' key = Some True"
  using assms
  by (auto simp: visitKind_def visitIdentifier_def Let_def fold_markDeclaration_look)

lemma visitKind_absent:
  assumes "visitKind H n w = Inr w'"
    and "key \<notin> set (declaredNames H n)" and "key \<notin> set (renamedNames n)"
    and "\<not> Map_has (identifiers w) key"
  shows "\<not> Map_has (identifiers w') key"
proof -
  have imp: "\<not> Map_has (identifiers (fold importElement es v)) key"
    if "key \<notin> name ` set es" "key \<notin> set (filter (\<lambda>k. k \<noteq> None) (map propertyName es))"
      "\<not> Map_has (identifiers v) key" for es v
    using that
    by (induction es arbitrary: v) (auto simp: importElement_has split: if_splits simp del: not_None_eq)
  show ?thesis
    using assms imp [of "elements n" w]
    by (auto simp: visit_defs declaredNames_def renamedNames_def Let_def has_Map_set
        fold_markDeclaration_has fold_declareVariable_has
        split: if_splits option.splits)
qed

text \<open>A sequence of visits keeps what every single visit keeps.\<close>

lemma visitAll_append:
  "visitAll H (xs @ ys) w =
     (case visitAll H xs w of Inl err \<Rightarrow> Inl err | Inr w' \<Rightarrow> visitAll H ys w')"
  by (induction xs arbitrary: w) (auto split: sum.splits)

lemma visitAll_frame:
  assumes "visitAll H ns w = Inr w'"
  shows "failures w' = failures w"
    and "distinct (map fst (identifiers w)) \<Longrightarrow> distinct (map fst (identifiers w'))"
  using assms
  by (induction ns arbitrary: w) (auto split: sum.splits dest: visitKind_frame)

lemma visitAll_has_old:
  assumes "visitAll H ns w = Inr w'" and "Map_has (identifiers w) key"
  shows "Map_has (identifiers w') key"
  using assms
  by (induction ns arbitrary: w) (auto split: sum.splits dest: visitKind_has_old)

lemma visitAll_has_new:
  assumes "visitAll H ns w = Inr w'" and "n \<in> set ns" and "key \<in> set (declaredNames H n)"
  shows "Map_has (identifiers w') key"
  using assms
proof (induction ns arbitrary: w)
  case Nil
  then show ?case by simp
next
  case (Cons a ns)
  from Cons.prems(1) obtain w1 where a: "visitKind H a w = Inr w1"
    and rest: "visitAll H ns w1 = Inr w'"
    by (auto split: sum.splits)
  show ?case
  proof (cases "n = a")
    case True
    then have "Map_has (identifiers w1) key"
      using a Cons.prems(3) by (auto dest: visitKind_has_new)
    then show ?thesis
      using rest by (rule visitAll_has_old [rotated])
  next
    case False
    then show ?thesis
      using Cons.IH [OF rest] Cons.prems(2,3) by simp
  qed
qed

lemma visitAll_unmarked:
  assumes "visitAll H ns w = Inr w'"
    and "\<forall>n \<in> set ns. (key = Some n \<or> key \<notin> set (referencedNames H n)) \<and>
           key \<notin> set (renamedNames n)"
    and "look w key \<noteq> Some True"
  shows "look w' key \<noteq> Some True"
  using assms
proof (induction ns arbitrary: w)
  case Nil
  then show ?case by simp
next
  case (Cons a ns)
  from Cons.prems(1) obtain w1 where a: "visitKind H a w = Inr w1"
    and rest: "visitAll H ns w1 = Inr w'"
    by (auto split: sum.splits)
  have "look w1 key \<noteq> Some True"
    using visitKind_unmarked [OF a _ _ Cons.prems(3)] Cons.prems(2) by simp
  then show ?case
    using Cons.IH [OF rest] Cons.prems(2) by simp
qed

lemma visitAll_marked:
  assumes "visitAll H ns w = Inr w'"
    and "\<forall>n \<in> set ns. key \<notin> set (declaredNames H n)"
    and "look w key = Some True"
  shows "look w' key = Some True"
  using assms
proof (induction ns arbitrary: w)
  case Nil
  then show ?case by simp
next
  case (Cons a ns)
  from Cons.prems(1) obtain w1 where a: "visitKind H a w = Inr w1"
    and rest: "visitAll H ns w1 = Inr w'"
    by (auto split: sum.splits)
  have "look w1 key = Some True"
    using visitKind_marked [OF a _ Cons.prems(3)] Cons.prems(2) by simp
  then show ?case
    using Cons.IH [OF rest] Cons.prems(2) by simp
qed


lemma visitAll_absent:
  assumes "visitAll H ns w = Inr w'"
    and "\<forall>n \<in> set ns. key \<notin> set (declaredNames H n) \<and> key \<notin> set (renamedNames n)"
    and "\<not> Map_has (identifiers w) key"
  shows "\<not> Map_has (identifiers w') key"
  using assms
proof (induction ns arbitrary: w)
  case Nil
  then show ?case by simp
next
  case (Cons a ns)
  from Cons.prems(1) obtain w1 where a: "visitKind H a w = Inr w1"
    and rest: "visitAll H ns w1 = Inr w'"
    by (auto split: sum.splits)
  have "\<not> Map_has (identifiers w1) key"
    using visitKind_absent [OF a _ _ Cons.prems(3)] Cons.prems(2) by simp
  then show ?case
    using Cons.IH [OF rest] Cons.prems(2) by simp
qed

text \<open>
  The walk of a tree without a nested source file is the sequence of the visits of its
  nodes in pre-order; the walk of a source file ends with \<open>onSourceFileEnd\<close>.
\<close>

lemma walk_is_visitAll:
  "(\<forall>n \<in> set (nodes c). kind n \<noteq> SourceFile) \<Longrightarrow> visitNode H c w = visitAll H (nodes c) w"
  "(\<forall>n \<in> set (propNodes ps). kind n \<noteq> SourceFile) \<Longrightarrow>
     walkChildren H ps w = visitAll H (propNodes ps) w"
proof (induction H c w and H ps w rule: visitNode_walkChildren.induct)
  case (1 H i k p e t ms ps w)
  then show ?case
    by (auto split: sum.splits)
next
  case (2 H w)
  then show ?case by simp
next
  case (3 H key child rest w)
  then show ?case
    by (auto simp: visitAll_append split: sum.splits)
qed

lemma visitNode_SourceFile:
  assumes "kind root = SourceFile"
    and "\<forall>n \<in> set (propNodes (props root)). kind n \<noteq> SourceFile"
  shows "visitNode H root w =
     (case visitAll H (nodes root) w of Inl err \<Rightarrow> Inl err | Inr w' \<Rightarrow> onSourceFileEnd w')"
proof (cases root)
  case (Node i k p e t ms ps)
  then have k: "k = SourceFile" using assms(1) by simp
  have "walkChildren H ps v = visitAll H (propNodes ps) v" for v
    using assms(2) Node by (intro walk_is_visitAll(2)) simp
  then show ?thesis
    using Node k by (simp add: visitKind_def split: sum.splits)
qed

text \<open>
  The end of the source file: each unused entry is reported once, and nothing throws
  unless the key \<open>undefined\<close> is unused.
\<close>

lemma reportUnused_count:
  assumes "reportUnused m w = Inr w'"
  shows "count_list (failures w') k =
           count_list (failures w) k + length (filter (\<lambda>p. fst p = Some k \<and> \<not> snd p) m)"
  using assms
proof (induction m w rule: reportUnused.induct)
  case (1 w)
  then show ?case by simp
next
  case (2 ident used rest w)
  then show ?case
    by (auto simp: addFailureAtNode_def split: if_splits option.splits sum.splits)
qed


lemma count_unused:
  assumes "distinct (map fst m)"
  shows "length (filter (\<lambda>p. fst p = key \<and> \<not> snd p) m) =
           (if map_of m key = Some False then 1 else 0)"
  using assms
proof (induction m)
  case Nil
  then show ?case by simp
next
  case (Cons p m)
  obtain k0 b0 where p: "p = (k0, b0)" by (cases p)
  show ?case
  proof (cases "key = k0")
    case True
    have "k0 \<notin> fst ` set m"
      using Cons.prems p by simp
    then have "filter (\<lambda>q. fst q = k0 \<and> \<not> snd q) m = []"
      by (force simp: filter_empty_conv)
    then show ?thesis
      using True p by simp
  next
    case False
    then show ?thesis
      using Cons p by simp
  qed
qed

lemma mem_referencedNames:
  "(key \<in> set (referencedNames H n)) =
     (kind n = Identifier \<and> \<not> isReassignmentTarget H n \<and>
      (\<exists>s ds. getSymbolAtLocation H n = Some s \<and> getDeclarations s = Some ds \<and>
         key \<in> getIdentifier ` set ds))"
proof (cases "kind n = Identifier \<and> \<not> isReassignmentTarget H n")
  case False
  then have "referencedNames H n = []"
    by (auto simp: referencedNames_def)
  then show ?thesis
    using False by simp
next
  case True
  show ?thesis
  proof (cases "getSymbolAtLocation H n")
    case None
    then have "referencedNames H n = []"
      by (simp add: referencedNames_def)
    then show ?thesis
      using None by simp
  next
    case (Some s)
    show ?thesis
    proof (cases "getDeclarations s")
      case None
      then have "referencedNames H n = []"
        using Some by (simp add: referencedNames_def)
      then show ?thesis
        using None Some by simp
    next
      case (Some ds)
      then have "referencedNames H n = map getIdentifier ds"
        using True \<open>getSymbolAtLocation H n = Some s\<close> by (simp add: referencedNames_def)
      then show ?thesis
        using True Some \<open>getSymbolAtLocation H n = Some s\<close> by simp
    qed
  qed
qed



lemma newWalker_empty:
  "look newWalker key = None" "\<not> Map_has (identifiers newWalker) key"
  "failures newWalker = []" "distinct (map fst (identifiers newWalker))"
  by (simp_all add: newWalker_def Map_has_def)

lemma onSourceFileEnd_count:
  assumes "onSourceFileEnd w = Inr w'" and "distinct (map fst (identifiers w))"
  shows "count_list (failures w') k =
           count_list (failures w) k + (if look w (Some k) = Some False then 1 else 0)"
  using reportUnused_count [of "identifiers w" w w' k] assms
  by (simp add: onSourceFileEnd_def count_unused)


lemma applyWithProgram_SourceFile:
  assumes "kind root = SourceFile"
    and "\<forall>n \<in> set (propNodes (props root)). kind n \<noteq> SourceFile"
    and "applyWithProgram H root = Inr fs"
  shows "\<exists>w w'. visitAll H (nodes root) newWalker = Inr w \<and> onSourceFileEnd w = Inr w' \<and>
           fs = failures w'"
  using assms(3) visitNode_SourceFile [OF assms(1,2), of H newWalker]
  by (auto simp: applyWithProgram_def split: sum.splits)

lemma applyWithProgram_count:
  assumes "kind root = SourceFile"
    and "\<forall>n \<in> set (propNodes (props root)). kind n \<noteq> SourceFile"
    and "applyWithProgram H root = Inr fs"
  shows "\<exists>w. visitAll H (nodes root) newWalker = Inr w \<and>
           count_list fs k = (if look w (Some k) = Some False then 1 else 0)"
proof -
  obtain w w' where w: "visitAll H (nodes root) newWalker = Inr w"
    and e: "onSourceFileEnd w = Inr w'" and fs: "fs = failures w'"
    using applyWithProgram_SourceFile [OF assms] by blast
  have "failures w = []" "distinct (map fst (identifiers w))"
    using visitAll_frame [OF w] newWalker_empty by simp_all
  then show ?thesis
    using onSourceFileEnd_count [OF e, of k] w fs by simp
qed

lemmas unused_example_defs = unusedFile_def unusedHost_def unusedName_def unusedFunction_def
  zName_def zDeclaration_def zList_def zStatement_def kName_def kClass_def baseHost_def

lemmas hoisted_example_defs = hoistedFile_def hoistedHost_def fooRef_def fooName_def fooDecl_def
  fooBody_def fooCall_def fooStatement_def baseHost_def

lemmas increment_example_defs = incrementFile_def incrementHost_def nName_def nInitializer_def
  nDeclaration_def nList_def nStatement_def nRef_def nIncrement_def nExpression_def baseHost_def


lemmas recursive_example_defs = recursiveFile_def recursiveHost_def fName_def fRef_def fCall_def
  fStatement_def fBody_def fDecl_def gName_def gBody_def gDecl_def baseHost_def

lemmas eval_defs = declaredNames_def mem_referencedNames renamedNames_def hasModifier_def
  name_def declarationList_def property_def getIdentifier_def

lemmas run_defs = applyWithProgram_def newWalker_def visit_defs Map_has_Nil Map_has_Cons
  markDeclaration_def importElement_def declareVariable_def onSourceFileEnd_def
  addFailureAtNode_def elements_def Let_def

lemmas arguments_example_defs = argumentsFile_def argumentsHost_def argumentsRef_def
  argumentsName_def argumentsFunction_def baseHost_def

text \<open>
  C1.  The claim fails for the unused-declaration tracker: \<open>visitIdentifier\<close> calls
  \<open>getDeclarations\<close> on the symbol of the identifier and \<open>forEach\<close> on its declarations
  without testing either.  For the file \<^verbatim>\<open>missing;\<close>, whose identifier has no symbol,
  and for the file \<^verbatim>\<open>function f() { arguments; }\<close>, whose identifier \<open>arguments\<close> has a
  symbol without declarations, the pass ends in a \<open>TypeError\<close> and returns no failure
  list.
\<close>

theorem unresolved_identifier_throws:
  "getSymbolAtLocation baseHost missingRef = None \<and>
   visitIdentifier baseHost missingRef newWalker = Inl TypeError \<and>
   applyWithProgram baseHost missingFile = Inl TypeError \<and>
   getSymbolAtLocation argumentsHost argumentsRef = Some (Symbol None) \<and>
   visitIdentifier argumentsHost argumentsRef newWalker = Inl TypeError \<and>
   applyWithProgram argumentsHost argumentsFile = Inl TypeError"
  by (simp add: run_defs missingFile_def missingRef_def arguments_example_defs eval_defs)

text \<open>
  C2, as the claim states it, fails for a reference that is visited before the
  declaration: \<open>visitIdentifier\<close> marks only the name tokens that are in the registry at
  that moment.  In \<^verbatim>\<open>foo(); function foo() {}\<close> the call is visited first, the function
  is registered afterwards and never marked, and the pass reports its name.
\<close>

theorem reference_before_declaration_not_counted:
  "kind fooRef = Identifier \<and> fooRef \<in> set (nodes hoistedFile) \<and>
   \<not> isReassignmentTarget hoistedHost fooRef \<and>
   getSymbolAtLocation hoistedHost fooRef = Some (Symbol (Some [fooDecl])) \<and>
   getIdentifier fooDecl = Some fooName \<and>
   fooDecl \<in> set (nodes hoistedFile) \<and> kind fooDecl = FunctionDeclaration \<and>
   \<not> hasModifier (modifiers fooDecl) ExportKeyword \<and>
   applyWithProgram hoistedHost hoistedFile = Inr [fooName]"
  by (simp add: run_defs hoisted_example_defs eval_defs)

text \<open>
  An identifier that is a reassignment target marks nothing: in \<^verbatim>\<open>let n = 0; n++;\<close> the
  operand of \<open>++\<close> is one for \<open>tsutils.isReassignmentTarget\<close>, and \<open>n\<close> is reported.
\<close>

lemma increment_does_not_mark:
  "kind nRef = Identifier \<and> isReassignmentTarget incrementHost nRef \<and>
   getSymbolAtLocation incrementHost nRef = Some (Symbol (Some [nDeclaration])) \<and>
   getIdentifier nDeclaration = Some nName \<and>
   applyWithProgram incrementHost incrementFile = Inr [nName]"
  by (simp add: run_defs increment_example_defs eval_defs)

text \<open>
  C2, amended.  In a pass over a source file that ends normally, let \<open>r\<close> be an
  identifier of the file, \<open>before\<close> the nodes visited before it and \<open>after\<close> the nodes
  visited after it.

  If \<open>r\<close> is not a reassignment target (\<open>tsutils.isReassignmentTarget\<close>: the target of
  a plain or compound assignment, the operand of \<open>++\<close>, \<open>--\<close> or \<open>delete\<close>, a target of a
  destructuring assignment or of a \<open>for\<close>-\<open>in\<close> or \<open>for\<close>-\<open>of\<close>) and not itself a
  registered name when it is visited, its symbol has a declaration with the name token
  \<open>k\<close>, \<open>k\<close> was registered by a node visited before \<open>r\<close> (a declaration is visited
  before its initializer and its body, so this covers a reference in the declaration's
  own initializer and a recursive call) and no node visited after \<open>r\<close> registers \<open>k\<close>
  again, then the visit of \<open>r\<close> sets the entry of \<open>k\<close> to used, and the pass reports no
  failure at \<open>k\<close>.

  If \<open>k\<close> is a name token that no node visited before \<open>r\<close> has registered, the visit of
  \<open>r\<close> leaves \<open>k\<close> without an entry, whatever \<open>r\<close> resolves to; when \<open>k\<close> is registered
  afterwards and no identifier visited after \<open>r\<close> resolves to it, the pass reports \<open>k\<close>
  exactly once.

  If \<open>r\<close> is a reassignment target, its visit leaves the walker as it was.
\<close>

theorem reference_after_registration_marks_used:
  assumes root: "kind root = SourceFile"
    and inner: "\<forall>n \<in> set (propNodes (props root)). kind n \<noteq> SourceFile"
    and run: "applyWithProgram H root = Inr fs"
    and order: "nodes root = before @ r # after"
    and ref: "kind r = Identifier"
  shows "(\<not> isReassignmentTarget H r \<and>
          getSymbolAtLocation H r = Some s \<and> getDeclarations s = Some ds \<and>
          d \<in> set ds \<and> getIdentifier d = Some k \<and>
          (\<forall>n \<in> set before. Some r \<notin> set (declaredNames H n) \<and> Some r \<notin> set (renamedNames n)) \<and>
          (\<exists>n \<in> set before. Some k \<in> set (declaredNames H n)) \<and>
          (\<forall>n \<in> set after. Some k \<notin> set (declaredNames H n))
          \<longrightarrow> (\<exists>w1 w2. visitAll H before newWalker = Inr w1 \<and> visitKind H r w1 = Inr w2 \<and>
                  map_of (identifiers w2) (Some k) = Some True) \<and>
               k \<notin> set fs) \<and>
         ((\<forall>n \<in> set before. Some j \<notin> set (declaredNames H n) \<and> Some j \<notin> set (renamedNames n))
          \<longrightarrow> (\<exists>w1 w2. visitAll H before newWalker = Inr w1 \<and> visitKind H r w1 = Inr w2 \<and>
                  map_of (identifiers w2) (Some j) = None) \<and>
               ((\<exists>n \<in> set after. Some j \<in> set (declaredNames H n)) \<and>
                (\<forall>n \<in> set after. (n = j \<or> Some j \<notin> set (referencedNames H n)) \<and>
                                  Some j \<notin> set (renamedNames n))
                \<longrightarrow> count_list fs j = 1)) \<and>
         (isReassignmentTarget H r
          \<longrightarrow> (\<exists>w1. visitAll H before newWalker = Inr w1 \<and> visitKind H r w1 = Inr w1))"
proof -
  obtain w where w: "visitAll H (nodes root) newWalker = Inr w"
    and count: "count_list fs x = (if look w (Some x) = Some False then 1 else 0)" for x
  proof -
    obtain w where w: "visitAll H (nodes root) newWalker = Inr w"
      using applyWithProgram_count [OF root inner run] by blast
    then have "count_list fs x = (if look w (Some x) = Some False then 1 else 0)" for x
      using applyWithProgram_count [OF root inner run, of x] by auto
    with w show ?thesis
      by (rule that)
  qed
  obtain w1 w2 where w1: "visitAll H before newWalker = Inr w1"
    and w2: "visitKind H r w1 = Inr w2" and w3: "visitAll H after w2 = Inr w"
    using w unfolding order by (auto simp: visitAll_append split: sum.splits)
  have marks: "(\<exists>v1 v2. visitAll H before newWalker = Inr v1 \<and> visitKind H r v1 = Inr v2 \<and>
                  map_of (identifiers v2) (Some k) = Some True) \<and> k \<notin> set fs"
    if target: "\<not> isReassignmentTarget H r"
      and resolves: "getSymbolAtLocation H r = Some s" "getDeclarations s = Some ds"
        "d \<in> set ds" "getIdentifier d = Some k"
      and notdecl: "\<forall>n \<in> set before. Some r \<notin> set (declaredNames H n) \<and>
        Some r \<notin> set (renamedNames n)"
      and registered: "\<exists>n \<in> set before. Some k \<in> set (declaredNames H n)"
      and once: "\<forall>n \<in> set after. Some k \<notin> set (declaredNames H n)"
  proof -
    have "Map_has (identifiers w1) (Some k)"
      using registered visitAll_has_new [OF w1] by blast
    moreover have "\<not> Map_has (identifiers w1) (Some r)"
      using visitAll_absent [OF w1 notdecl] newWalker_empty(2) by simp
    ultimately have marked: "look w2 (Some k) = Some True"
      using visitIdentifier_marks [OF ref _ target resolves, of w1] w2 by auto
    then have "look w (Some k) = Some True"
      using visitAll_marked [OF w3 once] by simp
    then have "count_list fs k = 0"
      using count [of k] by simp
    then show ?thesis
      using w1 w2 marked by (auto simp: count_list_0_iff)
  qed
  have early: "(\<exists>v1 v2. visitAll H before newWalker = Inr v1 \<and> visitKind H r v1 = Inr v2 \<and>
                  map_of (identifiers v2) (Some j) = None) \<and>
               ((\<exists>n \<in> set after. Some j \<in> set (declaredNames H n)) \<and>
                (\<forall>n \<in> set after. (n = j \<or> Some j \<notin> set (referencedNames H n)) \<and>
                                  Some j \<notin> set (renamedNames n))
                \<longrightarrow> count_list fs j = 1)"
    if unregistered: "\<forall>n \<in> set before. Some j \<notin> set (declaredNames H n) \<and>
        Some j \<notin> set (renamedNames n)"
  proof -
    have "\<not> Map_has (identifiers w1) (Some j)"
      using visitAll_absent [OF w1 unregistered] newWalker_empty(2) by simp
    moreover have "Some j \<notin> set (declaredNames H r)" "Some j \<notin> set (renamedNames r)"
      using ref by (simp_all add: declaredNames_def renamedNames_def)
    ultimately have "\<not> Map_has (identifiers w2) (Some j)"
      using visitKind_absent [OF w2] by simp
    then have absent: "look w2 (Some j) = None"
      by (rule not_has_look)
    have "count_list fs j = 1"
      if later: "\<exists>n \<in> set after. Some j \<in> set (declaredNames H n)"
        and unref: "\<forall>n \<in> set after. (n = j \<or> Some j \<notin> set (referencedNames H n)) \<and>
                                  Some j \<notin> set (renamedNames n)"
    proof -
      have "Map_has (identifiers w) (Some j)"
        using later visitAll_has_new [OF w3] by blast
      moreover have "\<forall>n \<in> set after. (Some j = Some n \<or> Some j \<notin> set (referencedNames H n)) \<and>
          Some j \<notin> set (renamedNames n)"
        using unref by auto
      then have "look w (Some j) \<noteq> Some True"
        using visitAll_unmarked [OF w3, of "Some j"] absent by simp
      ultimately have "look w (Some j) = Some False"
        by (auto simp: Map_has_def)
      then show ?thesis
        using count [of j] by simp
    qed
    then show ?thesis
      using w1 w2 absent by blast
  qed
  have target: "\<exists>v1. visitAll H before newWalker = Inr v1 \<and> visitKind H r v1 = Inr v1"
    if "isReassignmentTarget H r"
  proof -
    have "visitKind H r w1 = Inr w1"
      using ref that by (simp add: visitKind_def visitIdentifier_def Let_def)
    then show ?thesis
      using w1 by blast
  qed
  show ?thesis
    using marks early target by blast
qed

theorem recursive_call_marks_used:
  "kind fRef = Identifier \<and>
   getSymbolAtLocation recursiveHost fRef = Some (Symbol (Some [fDecl])) \<and>
   getIdentifier fDecl = Some fName \<and>
   nodes recursiveFile =
     [recursiveFile, fDecl, fName, fBody, fStatement, fCall] @ fRef # [gDecl, gName, gBody] \<and>
   (\<exists>w1 w2. visitAll recursiveHost [recursiveFile, fDecl, fName, fBody, fStatement, fCall]
               newWalker = Inr w1 \<and>
            visitKind recursiveHost fRef w1 = Inr w2 \<and>
            map_of (identifiers w2) (Some fName) = Some True) \<and>
   applyWithProgram recursiveHost recursiveFile = Inr [gName] \<and>
   fName \<notin> set [gName] \<and>
   nodes hoistedFile = [hoistedFile, fooStatement, fooCall] @ fooRef # [fooDecl, fooName, fooBody] \<and>
   (\<exists>w1 w2. visitAll hoistedHost [hoistedFile, fooStatement, fooCall] newWalker = Inr w1 \<and>
            visitKind hoistedHost fooRef w1 = Inr w2 \<and>
            map_of (identifiers w2) (Some fooName) = None) \<and>
   applyWithProgram hoistedHost hoistedFile = Inr [fooName] \<and>
   count_list [fooName] fooName = 1 \<and>
   nodes incrementFile =
     [incrementFile, nStatement, nList, nDeclaration, nName, nInitializer, nExpression,
      nIncrement] @ nRef # [] \<and>
   isReassignmentTarget incrementHost nRef \<and>
   (\<exists>w1. visitAll incrementHost
            [incrementFile, nStatement, nList, nDeclaration, nName, nInitializer, nExpression,
             nIncrement] newWalker = Inr w1 \<and>
          visitKind incrementHost nRef w1 = Inr w1) \<and>
   applyWithProgram incrementHost incrementFile = Inr [nName]"
proof -
  have run: "applyWithProgram recursiveHost recursiveFile = Inr [gName]"
    by (simp add: run_defs recursive_example_defs eval_defs)
  have order: "nodes recursiveFile =
      [recursiveFile, fDecl, fName, fBody, fStatement, fCall] @ fRef # [gDecl, gName, gBody]"
    by (simp add: recursive_example_defs)
  have h: "kind recursiveFile = SourceFile"
    "\<forall>n \<in> set (propNodes (props recursiveFile)). kind n \<noteq> SourceFile"
    by (simp_all add: recursive_example_defs)
  have ref: "kind fRef = Identifier"
    by (simp add: recursive_example_defs)
  have resolves: "\<not> isReassignmentTarget recursiveHost fRef"
    "getSymbolAtLocation recursiveHost fRef = Some (Symbol (Some [fDecl]))"
    "getDeclarations (Symbol (Some [fDecl])) = Some [fDecl]"
    "fDecl \<in> set [fDecl]" "getIdentifier fDecl = Some fName"
    by (simp_all add: recursive_example_defs eval_defs)
  have around:
    "\<forall>n \<in> set [recursiveFile, fDecl, fName, fBody, fStatement, fCall].
       Some fRef \<notin> set (declaredNames recursiveHost n) \<and> Some fRef \<notin> set (renamedNames n)"
    "\<exists>n \<in> set [recursiveFile, fDecl, fName, fBody, fStatement, fCall].
       Some fName \<in> set (declaredNames recursiveHost n)"
    "\<forall>n \<in> set [gDecl, gName, gBody]. Some fName \<notin> set (declaredNames recursiveHost n)"
    by (simp_all add: recursive_example_defs eval_defs)
  have pre: "\<not> isReassignmentTarget recursiveHost fRef \<and>
      getSymbolAtLocation recursiveHost fRef = Some (Symbol (Some [fDecl])) \<and>
      getDeclarations (Symbol (Some [fDecl])) = Some [fDecl] \<and>
      fDecl \<in> set [fDecl] \<and> getIdentifier fDecl = Some fName \<and>
      (\<forall>n \<in> set [recursiveFile, fDecl, fName, fBody, fStatement, fCall].
         Some fRef \<notin> set (declaredNames recursiveHost n) \<and> Some fRef \<notin> set (renamedNames n)) \<and>
      (\<exists>n \<in> set [recursiveFile, fDecl, fName, fBody, fStatement, fCall].
         Some fName \<in> set (declaredNames recursiveHost n)) \<and>
      (\<forall>n \<in> set [gDecl, gName, gBody]. Some fName \<notin> set (declaredNames recursiveHost n))"
    by (intro conjI resolves around)
  have recursive:
    "(\<exists>w1 w2. visitAll recursiveHost [recursiveFile, fDecl, fName, fBody, fStatement, fCall]
               newWalker = Inr w1 \<and>
            visitKind recursiveHost fRef w1 = Inr w2 \<and>
            map_of (identifiers w2) (Some fName) = Some True) \<and>
     fName \<notin> set [gName]"
    by (rule reference_after_registration_marks_used [OF h run order ref,
          THEN conjunct1, THEN mp, OF pre])
  have run2: "applyWithProgram hoistedHost hoistedFile = Inr [fooName]"
    by (simp add: run_defs hoisted_example_defs eval_defs)
  have order2: "nodes hoistedFile =
      [hoistedFile, fooStatement, fooCall] @ fooRef # [fooDecl, fooName, fooBody]"
    by (simp add: hoisted_example_defs)
  have h2: "kind hoistedFile = SourceFile"
    "\<forall>n \<in> set (propNodes (props hoistedFile)). kind n \<noteq> SourceFile"
    by (simp_all add: hoisted_example_defs)
  have ref2: "kind fooRef = Identifier"
    by (simp add: hoisted_example_defs)
  have around2:
    "\<forall>n \<in> set [hoistedFile, fooStatement, fooCall].
       Some fooName \<notin> set (declaredNames hoistedHost n) \<and> Some fooName \<notin> set (renamedNames n)"
    "\<exists>n \<in> set [fooDecl, fooName, fooBody]. Some fooName \<in> set (declaredNames hoistedHost n)"
    "\<forall>n \<in> set [fooDecl, fooName, fooBody].
       (n = fooName \<or> Some fooName \<notin> set (referencedNames hoistedHost n)) \<and>
       Some fooName \<notin> set (renamedNames n)"
    by (simp_all add: hoisted_example_defs eval_defs)
  have early:
    "(\<exists>w1 w2. visitAll hoistedHost [hoistedFile, fooStatement, fooCall] newWalker = Inr w1 \<and>
            visitKind hoistedHost fooRef w1 = Inr w2 \<and>
            map_of (identifiers w2) (Some fooName) = None) \<and>
     ((\<exists>n \<in> set [fooDecl, fooName, fooBody]. Some fooName \<in> set (declaredNames hoistedHost n)) \<and>
      (\<forall>n \<in> set [fooDecl, fooName, fooBody].
         (n = fooName \<or> Some fooName \<notin> set (referencedNames hoistedHost n)) \<and>
         Some fooName \<notin> set (renamedNames n))
      \<longrightarrow> count_list [fooName] fooName = 1)"
    by (rule reference_after_registration_marks_used [OF h2 run2 order2 ref2,
          THEN conjunct2, THEN conjunct1, THEN mp, OF around2(1)])
  have hoisted:
    "(\<exists>w1 w2. visitAll hoistedHost [hoistedFile, fooStatement, fooCall] newWalker = Inr w1 \<and>
            visitKind hoistedHost fooRef w1 = Inr w2 \<and>
            map_of (identifiers w2) (Some fooName) = None) \<and>
     count_list [fooName] fooName = 1"
    using early around2(2,3) by blast
  have run3: "applyWithProgram incrementHost incrementFile = Inr [nName]"
    by (simp add: run_defs increment_example_defs eval_defs)
  have order3: "nodes incrementFile =
      [incrementFile, nStatement, nList, nDeclaration, nName, nInitializer, nExpression,
       nIncrement] @ nRef # []"
    by (simp add: increment_example_defs)
  have h3: "kind incrementFile = SourceFile"
    "\<forall>n \<in> set (propNodes (props incrementFile)). kind n \<noteq> SourceFile"
    by (simp_all add: increment_example_defs)
  have ref3: "kind nRef = Identifier" and target3: "isReassignmentTarget incrementHost nRef"
    by (simp_all add: increment_example_defs)
  have increment:
    "\<exists>w1. visitAll incrementHost
            [incrementFile, nStatement, nList, nDeclaration, nName, nInitializer, nExpression,
             nIncrement] newWalker = Inr w1 \<and>
          visitKind incrementHost nRef w1 = Inr w1"
    by (rule reference_after_registration_marks_used [OF h3 run3 order3 ref3,
          THEN conjunct2, THEN conjunct2, THEN mp, OF target3])
  show ?thesis
    by (intro conjI ref resolves(2,5) order run order2 run2 order3 target3 increment run3
        recursive [THEN conjunct1] recursive [THEN conjunct2]
        hoisted [THEN conjunct1] hoisted [THEN conjunct2])
qed




section \<open>Properties of both rules\<close>

lemma CallbackScope_walk_visitNode:
  "CallbackScope_walk H n w =
     CallbackScope_visitNode H (ScopeWalker_visitNode H (CallbackScope_walkChildren H)) n w"
  by (cases n) (simp add: CallbackScope_visitNode_def ScopeWalker_visitNode_def split: sum.splits)

lemma applyWithWalker_new:
  "applyWithWalker walk (length store) (store @ [obj]) =
     (case walk obj of
        Inl err \<Rightarrow> (Inl err, store @ [obj])
      | Inr w \<Rightarrow> (Inr (failures w), store @ [w]))"
  by (simp add: applyWithWalker_def split: sum.splits)

lemma UnusedDeclaration_applyWithProgram_new:
  "UnusedDeclaration_applyWithProgram H f store =
     (case visitNode H f newWalker of
        Inl err \<Rightarrow> (Inl err, store @ [newWalker])
      | Inr w \<Rightarrow> (Inr (failures w), store @ [w]))"
  by (simp add: UnusedDeclaration_applyWithProgram_def newObject_def applyWithWalker_new)

lemma CallbackScope_applyWithProgram_new:
  "CallbackScope_applyWithProgram H options f store =
     (case CallbackScope_walk H f (newCallbackScopeWalker options) of
        Inl err \<Rightarrow> (Inl err, store @ [newCallbackScopeWalker options])
      | Inr w \<Rightarrow> (Inr (failures w), store @ [w]))"
  by (simp add: CallbackScope_applyWithProgram_def newObject_def applyWithWalker_new)

lemmas outer_example_defs = outerFile_def outerHost_def forEachCall_def hostA_def xRef_def
  xAssignment_def arrowA_def xDecl_def baseHost_def

lemmas capture_defs = validate_def isUnsafe_def isUnsafeRoot_def isWithinClosure_def
  rootCallback_def addFailureAtNode_def newCallbackScopeWalker_def isCallback_def
  pushCallback_def popCallback_def operator_def isIdentifier_def
  isPropertyAccessExpression_def isImportSpecifier_def isNamespaceImport_def
  isQualifiedName_def isCallExpression_def isTaggedTemplateExpression_def
  isNewExpression_def isTypeReferenceNode_def expression_def tag_def property_def Let_def

text \<open>
  What the new walker of every pass is for: a walker that has walked a file still holds
  its registry and its failures, and walking the file with it again reports every
  unused declaration a second time.
\<close>

lemma walker_used_again_reports_twice:
  "fst (UnusedDeclaration_applyWithProgram unusedHost unusedFile []) = Inr [unusedName, zName] \<and>
   fst (applyWithWalker (visitNode unusedHost unusedFile) 0
          (snd (UnusedDeclaration_applyWithProgram unusedHost unusedFile [])))
     = Inr [unusedName, zName, unusedName, zName]"
  by (simp add: UnusedDeclaration_applyWithProgram_def newObject_def applyWithWalker_def
      run_defs unused_example_defs eval_defs)

text \<open>
  C8.  Whatever walker objects exist when a pass starts (the store is arbitrary), the
  pass of either rule returns what the walk of a new walker over the file returns, and
  leaves every walker that existed before as it was.  So a second pass over the same
  file with the same host, started in the store the first pass leaves behind, returns
  the same outcome as the first: the same failures in the same order, or the same error.
\<close>

theorem passes_share_no_state:
  "fst (UnusedDeclaration_applyWithProgram H f s) = applyWithProgram H f \<and>
   take (length s) (snd (UnusedDeclaration_applyWithProgram H f s)) = s \<and>
   fst (UnusedDeclaration_applyWithProgram H f (snd (UnusedDeclaration_applyWithProgram H f s)))
     = fst (UnusedDeclaration_applyWithProgram H f s) \<and>
   fst (CallbackScope_applyWithProgram H options f c)
     = map_sum id failures (CallbackScope_walk H f (newCallbackScopeWalker options)) \<and>
   take (length c) (snd (CallbackScope_applyWithProgram H options f c)) = c \<and>
   fst (CallbackScope_applyWithProgram H options f
          (snd (CallbackScope_applyWithProgram H options f c)))
     = fst (CallbackScope_applyWithProgram H options f c)"
  by (simp add: UnusedDeclaration_applyWithProgram_new CallbackScope_applyWithProgram_new
      applyWithProgram_def split: sum.splits)

theorem second_pass_reports_the_same:
  "fst (UnusedDeclaration_applyWithProgram unusedHost unusedFile [newWalker\<lparr>failures := [kName]\<rparr>])
     = Inr [unusedName, zName] \<and>
   fst (UnusedDeclaration_applyWithProgram unusedHost unusedFile
          (snd (UnusedDeclaration_applyWithProgram unusedHost unusedFile
                  [newWalker\<lparr>failures := [kName]\<rparr>])))
     = Inr [unusedName, zName] \<and>
   fst (CallbackScope_applyWithProgram outerHost None outerFile []) = Inr [xRef] \<and>
   fst (CallbackScope_applyWithProgram outerHost None outerFile
          (snd (CallbackScope_applyWithProgram outerHost None outerFile [])))
     = Inr [xRef]"
proof -
  have unused: "applyWithProgram unusedHost unusedFile = Inr [unusedName, zName]"
    by (simp add: run_defs unused_example_defs eval_defs)
  have capture: "map_sum id failures
      (CallbackScope_walk outerHost outerFile (newCallbackScopeWalker None)) = Inr [xRef]"
    by (simp add: capture_defs outer_example_defs)
  show ?thesis
    using passes_share_no_state [where H = unusedHost and f = unusedFile
        and s = "[newWalker\<lparr>failures := [kName]\<rparr>]"]
      passes_share_no_state [where H = outerHost and f = outerFile and options = None
        and c = "[]"]
      unused capture
    by simp
qed

end
